theory Spec2Isabelle
  imports Complex_Main
begin

section \<open>Values shared by the whole program\<close>

text \<open>
  The monitor reads its configuration and its token file with \<open>json.load\<close>, so the
  values it handles are Python's images of JSON values: \<open>None\<close>, \<open>bool\<close>, \<open>int\<close>,
  \<open>float\<close>, \<open>str\<close>, \<open>list\<close> and \<open>dict\<close>. A finite float is modelled by the rational
  it denotes; a dict by its items, each key occurring once.
\<close>

datatype json =
    JNull
  | JBool bool
  | JInt int
  | JFloat rat
  | JStr string
  | JList "json list"
  | JObject "(string \<times> json) list"

text \<open>The exceptions the program can meet, by class.\<close>

datatype pyexn =
    SystemExit int
  | ValueError string
  | TypeError
  | AttributeError
  | KeyError
  | OSError
  | OverflowError
  | RefreshError

type_synonym config = "(string \<times> json) list"

text \<open>\<open>config.get(key, default)\<close>\<close>

definition config_get :: "config \<Rightarrow> string \<Rightarrow> json \<Rightarrow> json" where
  "config_get cfg key dflt = (case map_of cfg key of None \<Rightarrow> dflt | Some v \<Rightarrow> v)"

text \<open>Python's truth value of a loaded JSON value, as \<open>not config[key]\<close> tests it.\<close>

fun truthy :: "json \<Rightarrow> bool" where
  "truthy JNull = False"
| "truthy (JBool b) = b"
| "truthy (JInt n) = (n \<noteq> 0)"
| "truthy (JFloat r) = (r \<noteq> 0)"
| "truthy (JStr s) = (s \<noteq> [])"
| "truthy (JList xs) = (xs \<noteq> [])"
| "truthy (JObject kvs) = (kvs \<noteq> [])"

subsection \<open>Strings\<close>

definition WEBSITE_URL :: string where
  "WEBSITE_URL = ''https://c2smart.engineering.nyu.edu/''"

text \<open>\<open>s.startswith(p)\<close> and \<open>p in s\<close> on strings.\<close>

fun starts_with :: "string \<Rightarrow> string \<Rightarrow> bool" where
  "starts_with [] ys = True"
| "starts_with (x # xs) [] = False"
| "starts_with (x # xs) (y # ys) = (x = y \<and> starts_with xs ys)"

fun str_in :: "string \<Rightarrow> string \<Rightarrow> bool" where
  "str_in xs [] = (xs = [])"
| "str_in xs (y # ys) = (starts_with xs (y # ys) \<or> str_in xs ys)"

text \<open>\<open>str(n)\<close> for an integer: decimal digits, a minus sign when negative.\<close>

definition digit_char :: "nat \<Rightarrow> char" where
  "digit_char d = ''0123456789'' ! d"

fun str_nat :: "nat \<Rightarrow> string" where
  "str_nat n = (if n < 10 then [digit_char n] else str_nat (n div 10) @ [digit_char (n mod 10)])"

declare str_nat.simps [simp del]

definition str_int :: "int \<Rightarrow> string" where
  "str_int i = (if i < 0 then CHR ''-'' # str_nat (nat (- i)) else str_nat (nat i))"

section \<open>Probe evaluator: \<open>HeartbeatMonitor.check_website\<close>\<close>

text \<open>
  The classes of exception \<open>requests.get\<close> can raise, as far as the handlers of
  \<open>check_website\<close> tell them apart. \<open>OtherRequestException\<close> and \<open>OtherException\<close>
  carry \<open>type(e).__name__\<close>.
\<close>

datatype exn_class =
    Timeout
  | ConnectTimeout
  | ReadTimeout
  | ConnectionError
  | ProxyError
  | SSLError
  | TooManyRedirects
  | OtherRequestException string
  | OtherException string

text \<open>
  \<open>isinstance c h\<close>: an exception of class \<open>c\<close> is caught by \<open>except h\<close>. The classes
  are those of \<open>requests.exceptions\<close>: \<open>ConnectTimeout\<close> derives from both
  \<open>ConnectionError\<close> and \<open>Timeout\<close>, \<open>ReadTimeout\<close> from \<open>Timeout\<close>, \<open>ProxyError\<close> and
  \<open>SSLError\<close> from \<open>ConnectionError\<close>, and all of them from \<open>RequestException\<close>.
\<close>

datatype handler =
  HTimeout | HConnectionError | HSSLError | HTooManyRedirects | HRequestException | HException

fun isinstance :: "exn_class \<Rightarrow> handler \<Rightarrow> bool" where
  "isinstance c HException = True"
| "isinstance (OtherException n) h = False"
| "isinstance c HRequestException = True"
| "isinstance c HTimeout = (c = Timeout \<or> c = ConnectTimeout \<or> c = ReadTimeout)"
| "isinstance c HConnectionError =
     (c = ConnectionError \<or> c = ConnectTimeout \<or> c = ProxyError \<or> c = SSLError)"
| "isinstance c HSSLError = (c = SSLError)"
| "isinstance c HTooManyRedirects = (c = TooManyRedirects)"

fun type_name :: "exn_class \<Rightarrow> string" where
  "type_name Timeout = ''Timeout''"
| "type_name ConnectTimeout = ''ConnectTimeout''"
| "type_name ReadTimeout = ''ReadTimeout''"
| "type_name ConnectionError = ''ConnectionError''"
| "type_name ProxyError = ''ProxyError''"
| "type_name SSLError = ''SSLError''"
| "type_name TooManyRedirects = ''TooManyRedirects''"
| "type_name (OtherRequestException n) = n"
| "type_name (OtherException n) = n"

text \<open>
  What the one \<open>requests.get\<close> of a check comes back with: a response (status code and
  decoded text) or a raised exception with its \<open>str(e)\<close>.
\<close>

datatype probe =
    Response int string
  | Raised exn_class string

text \<open>
  \<open>str(v)\<close> inside an f-string. Integers, strings, \<open>None\<close> and booleans are rendered
  here; the interpreter's rendering of floats, lists and dicts is the parameter
  \<open>repr\<close>.
\<close>

fun py_str :: "(json \<Rightarrow> string) \<Rightarrow> json \<Rightarrow> string" where
  "py_str repr JNull = ''None''"
| "py_str repr (JBool b) = (if b then ''True'' else ''False'')"
| "py_str repr (JInt n) = str_int n"
| "py_str repr (JStr s) = s"
| "py_str repr v = repr v"

definition check_website :: "(json \<Rightarrow> string) \<Rightarrow> config \<Rightarrow> probe \<Rightarrow> bool \<times> string option" where
  "check_website repr cfg p =
    (case p of
       Response status_code text \<Rightarrow>
         if status_code = 200 then
           if str_in ''C2SMART'' text \<or> length text > 1000 then (True, None)
           else (False, Some (''Website response abnormal: incomplete content (status code: ''
                   @ str_int status_code @ '', content length: ''
                   @ str_int (int (length text)) @ '' bytes)''))
         else (False, Some (''Website returned error status code: '' @ str_int status_code
                   @ '' (URL: '' @ WEBSITE_URL @ '')''))
     | Raised c error_detail \<Rightarrow>
         if isinstance c HTimeout then
           (False, Some (''Request timeout after ''
              @ py_str repr (config_get cfg ''timeout'' (JInt 30))
              @ '' seconds. The server did not respond in time. (URL: '' @ WEBSITE_URL @ '')''))
         else if isinstance c HConnectionError then
           if str_in ''Name or service not known'' error_detail
              \<or> str_in ''nodename nor servname provided'' error_detail then
             (False, Some (''DNS resolution failed: Unable to resolve domain name for ''
                @ WEBSITE_URL @ ''. The domain may not exist or DNS server is unreachable.''))
           else if str_in ''Connection refused'' error_detail then
             (False, Some (''Connection refused: The server at '' @ WEBSITE_URL
                @ '' is not accepting connections. The server may be down or the port is blocked.''))
           else
             (False, Some (''Connection error: Unable to connect to server at '' @ WEBSITE_URL
                @ ''. Details: '' @ error_detail))
         else if isinstance c HSSLError then
           (False, Some (''SSL/TLS error: Certificate verification failed or SSL handshake error. Details: ''
              @ error_detail))
         else if isinstance c HTooManyRedirects then
           (False, Some (''Too many redirects: The website redirected too many times. This may indicate a redirect loop. (URL: ''
              @ WEBSITE_URL @ '')''))
         else if isinstance c HRequestException then
           (False, Some (''Request exception: '' @ type_name c @ '' - '' @ error_detail
              @ '' (URL: '' @ WEBSITE_URL @ '')''))
         else
           (False, Some (''Unknown error: '' @ type_name c @ '' - '' @ error_detail
              @ '' (URL: '' @ WEBSITE_URL @ '')'')))"

section \<open>Incident tracker: \<open>HeartbeatMonitor.run_check\<close>\<close>

record tracker =
  last_check_time :: "int option"
  consecutive_failures :: int
  last_alert_sent :: bool

text \<open>The tracker fields as \<open>__init__\<close> sets them.\<close>

definition init_tracker :: tracker where
  "init_tracker = \<lparr>last_check_time = None, consecutive_failures = 0, last_alert_sent = False\<rparr>"

text \<open>
  What a check asks of the notifier: nothing, or \<open>send_alert_email(error_message)\<close>,
  whose body reports the failure count of that moment.
\<close>

datatype action = NoAction | SendAlert "string option" int

fun is_alert :: "action \<Rightarrow> bool" where
  "is_alert NoAction = False"
| "is_alert (SendAlert m n) = True"

text \<open>
  \<open>self.consecutive_failures >= max_failures\<close>, the right-hand side being whatever the
  configuration holds: Python compares an int with an int, a bool or a float and
  raises \<open>TypeError\<close> for anything else.
\<close>

fun int_ge :: "int \<Rightarrow> json \<Rightarrow> pyexn + bool" where
  "int_ge n (JInt m) = Inr (m \<le> n)"
| "int_ge n (JBool b) = Inr ((if b then 1 else 0) \<le> n)"
| "int_ge n (JFloat r) = Inr (r \<le> of_int n)"
| "int_ge n v = Inl TypeError"

text \<open>
  One check. \<open>now\<close> is the clock reading, \<open>res\<close> the pair \<open>check_website\<close> returned.
  The result is the updated tracker and the action, or the exception that leaves
  \<open>run_check\<close>. \<open>send_alert_email\<close> itself raises nothing: \<open>send_email\<close> and
  \<open>authenticate_gmail\<close> catch every exception and report failure by their result,
  which \<open>run_check\<close> ignores, and the division of \<open>check_interval\<close> in its body has
  already been done once by \<open>run\<close> before the first check.
\<close>

definition run_check :: "config \<Rightarrow> int \<Rightarrow> bool \<times> string option \<Rightarrow> tracker \<Rightarrow> pyexn + (tracker \<times> action)" where
  "run_check cfg now res st =
    (let st1 = st\<lparr>last_check_time := Some now\<rparr>;
         is_healthy = fst res;
         error_message = snd res
     in if is_healthy then
          Inr (st1\<lparr>consecutive_failures := 0, last_alert_sent := False\<rparr>, NoAction)
        else
          let st2 = st1\<lparr>consecutive_failures := consecutive_failures st1 + 1\<rparr>;
              max_failures = config_get cfg ''max_consecutive_failures'' (JInt 2)
          in case int_ge (consecutive_failures st2) max_failures of
               Inl e \<Rightarrow> Inl e
             | Inr reached \<Rightarrow>
                 if reached \<and> \<not> last_alert_sent st2 then
                   Inr (st2\<lparr>last_alert_sent := True\<rparr>,
                        SendAlert error_message (consecutive_failures st2))
                 else Inr (st2, NoAction))"

text \<open>The scheduler's ticks in a row: each with its clock reading and check result.\<close>

fun run_checks :: "config \<Rightarrow> tracker \<Rightarrow> (int \<times> bool \<times> string option) list \<Rightarrow> pyexn + (tracker \<times> action list)" where
  "run_checks cfg st [] = Inr (st, [])"
| "run_checks cfg st (t # ts) =
     (case run_check cfg (fst t) (snd t) st of
        Inl e \<Rightarrow> Inl e
      | Inr (st', a) \<Rightarrow>
          (case run_checks cfg st' ts of
             Inl e \<Rightarrow> Inl e
           | Inr (st'', as) \<Rightarrow> Inr (st'', a # as)))"

text \<open>One tick of the scheduler: probe, classify, track.\<close>

definition tick :: "(json \<Rightarrow> string) \<Rightarrow> config \<Rightarrow> int \<Rightarrow> probe \<Rightarrow> tracker \<Rightarrow> pyexn + (tracker \<times> action)" where
  "tick repr cfg now p st = run_check cfg now (check_website repr cfg p) st"

text \<open>The latch invariant of the tracker for a threshold \<open>thr\<close>.\<close>

definition tracker_inv :: "int \<Rightarrow> tracker \<Rightarrow> bool" where
  "tracker_inv thr st = (last_alert_sent st \<longrightarrow> thr \<le> consecutive_failures st)"

section \<open>Configuration: \<open>HeartbeatMonitor.load_config\<close> and \<open>main\<close>\<close>

text \<open>
  The configuration file as \<open>load_config\<close> finds it: absent, present but not JSON, or
  present with the value \<open>json.load\<close> returns.
\<close>

datatype config_file = Missing | Unparsable | Parsed json

text \<open>The template written when the file is absent (\<open>CHECK_INTERVAL\<close> is 600, \<open>TIMEOUT\<close> 30).\<close>

definition default_config :: json where
  "default_config = JObject
     [(''recipient_email'', JList [JStr ''your-email@example.com'']),
      (''sender_email'', JStr ''your-email@gmail.com''),
      (''check_interval'', JInt 600),
      (''timeout'', JInt 30),
      (''max_consecutive_failures'', JInt 2)]"

text \<open>
  \<open>key in config\<close> and \<open>config[key]\<close> for whatever value the file held: a dict is
  looked up, a list or a string supports \<open>in\<close> but not indexing by a string, the other
  values support neither.
\<close>

fun py_in :: "string \<Rightarrow> json \<Rightarrow> pyexn + bool" where
  "py_in key (JObject kvs) = Inr (map_of kvs key \<noteq> None)"
| "py_in key (JList xs) = Inr (List.member xs (JStr key))"
| "py_in key (JStr s) = Inr (str_in key s)"
| "py_in key v = Inl TypeError"

fun py_getitem :: "json \<Rightarrow> string \<Rightarrow> pyexn + json" where
  "py_getitem (JObject kvs) key = (case map_of kvs key of None \<Rightarrow> Inl KeyError | Some v \<Rightarrow> Inr v)"
| "py_getitem v key = Inl TypeError"

text \<open>\<open>key.split('_')[0]\<close>\<close>

definition split_first :: "string \<Rightarrow> string" where
  "split_first key = takeWhile (\<lambda>c. c \<noteq> CHR ''_'') key"

text \<open>The body of the validation loop for one required key; \<open>None\<close> when it passes.\<close>

definition check_key :: "json \<Rightarrow> string \<Rightarrow> pyexn option" where
  "check_key config key =
    (case py_in key config of
       Inl e \<Rightarrow> Some e
     | Inr present \<Rightarrow>
        if \<not> present then Some (ValueError (''Please set '' @ key @ '' in the config file''))
        else
          (case py_getitem config key of
             Inl e \<Rightarrow> Some e
           | Inr v \<Rightarrow>
              if \<not> truthy v then Some (ValueError (''Please set '' @ key @ '' in the config file''))
              else if key = ''recipient_email'' then
                (case v of
                   JStr s \<Rightarrow>
                     if s = ''your-email@example.com''
                     then Some (ValueError (''Please set '' @ key @ '' in the config file''))
                     else None
                 | JList xs \<Rightarrow>
                     if length xs = 0
                     then Some (ValueError (''Please set '' @ key
                            @ '' in the config file with at least one email address''))
                     else None
                 | _ \<Rightarrow> Some (ValueError (key @ '' must be a string or array format'')))
              else if v = JStr (''your-'' @ split_first key @ ''@example.com'')
                then Some (ValueError (''Please set '' @ key @ '' in the config file''))
                else None))"

fun check_keys :: "json \<Rightarrow> string list \<Rightarrow> pyexn option" where
  "check_keys config [] = None"
| "check_keys config (key # keys) =
     (case check_key config key of Some e \<Rightarrow> Some e | None \<Rightarrow> check_keys config keys)"

definition required_keys :: "string list" where
  "required_keys = [''recipient_email'', ''sender_email'']"

text \<open>
  \<open>load_config\<close>: the first component is what it writes to the configuration file
  (\<open>None\<close>: nothing), the second the configuration returned or the exception raised.
\<close>

definition load_config :: "config_file \<Rightarrow> json option \<times> (pyexn + json)" where
  "load_config f =
    (case f of
       Missing \<Rightarrow> (Some default_config, Inl (SystemExit 1))
     | Unparsable \<Rightarrow> (None, Inl (ValueError ''JSONDecodeError''))
     | Parsed config \<Rightarrow>
         (case check_keys config required_keys of
            Some e \<Rightarrow> (None, Inl e)
          | None \<Rightarrow> (None, Inr config)))"

text \<open>
  \<open>main\<close> up to the call of \<open>monitor.run()\<close>: the constructor loads the configuration
  first; \<open>SystemExit\<close> passes the handler \<open>except Exception\<close> with its own status, any
  other exception is reported and turned into \<open>sys.exit(1)\<close>.
\<close>

datatype startup = Exit int | EnterRun json

definition main_startup :: "config_file \<Rightarrow> startup" where
  "main_startup f =
    (case snd (load_config f) of
       Inl (SystemExit n) \<Rightarrow> Exit n
     | Inl e \<Rightarrow> Exit 1
     | Inr config \<Rightarrow> EnterRun config)"

subsection \<open>The recipient header of \<open>send_email\<close>\<close>

text \<open>\<open>', '.join(xs)\<close>; it raises \<open>TypeError\<close> when an item is not a string.\<close>

fun join :: "string \<Rightarrow> string list \<Rightarrow> string" where
  "join sep [] = []"
| "join sep [x] = x"
| "join sep (x # y # ys) = x @ sep @ join sep (y # ys)"

fun strings_of :: "json list \<Rightarrow> string list option" where
  "strings_of [] = Some []"
| "strings_of (JStr s # vs) = map_option ((#) s) (strings_of vs)"
| "strings_of (v # vs) = None"

text \<open>The value \<open>send_email\<close> stores in \<open>message['to']\<close> for a configured recipient value.\<close>

definition message_to :: "json \<Rightarrow> pyexn + json" where
  "message_to recipient_emails =
    (case recipient_emails of
       JList xs \<Rightarrow>
         (case strings_of xs of None \<Rightarrow> Inl TypeError | Some ss \<Rightarrow> Inr (JStr (join '', '' ss)))
     | v \<Rightarrow> Inr v)"

text \<open>
  The recipient values and sender values that pass validation, stated on their own:
  a non-empty string other than \<open>your-email@example.com\<close> or a non-empty list; a
  sender value that is not false in Python's sense and is not the string
  \<open>your-sender@example.com\<close>.
\<close>

fun recipient_ok :: "json \<Rightarrow> bool" where
  "recipient_ok (JStr s) = (s \<noteq> [] \<and> s \<noteq> ''your-email@example.com'')"
| "recipient_ok (JList xs) = (xs \<noteq> [])"
| "recipient_ok v = False"

definition sender_ok :: "json \<Rightarrow> bool" where
  "sender_ok v = (truthy v \<and> v \<noteq> JStr ''your-sender@example.com'')"

section \<open>Dates and times: the part of \<open>datetime\<close> the token code uses\<close>

text \<open>
  A \<open>datetime\<close> object by its fields. \<open>tzinfo\<close> is \<open>None\<close> for a naive value and
  otherwise the UTC offset of its fixed-offset \<open>timezone\<close>, in microseconds;
  \<open>timezone.utc\<close> is offset 0.
\<close>

record datetime =
  year :: nat
  month :: nat
  day :: nat
  hour :: nat
  minute :: nat
  second :: nat
  microsecond :: nat
  tzinfo :: "int option"

definition is_leap :: "nat \<Rightarrow> bool" where
  "is_leap y = (y mod 4 = 0 \<and> (y mod 100 \<noteq> 0 \<or> y mod 400 = 0))"

definition days_in_month :: "nat \<Rightarrow> nat \<Rightarrow> nat" where
  "days_in_month y m =
     (if m = 2 then (if is_leap y then 29 else 28)
      else if m = 4 \<or> m = 6 \<or> m = 9 \<or> m = 11 then 30 else 31)"

definition DAY :: int where
  "DAY = 86400000000"

text \<open>The checks of the constructors \<open>datetime(...)\<close> and \<open>timezone(offset)\<close>.\<close>

definition valid_date :: "nat \<Rightarrow> nat \<Rightarrow> nat \<Rightarrow> bool" where
  "valid_date y m d = (1 \<le> y \<and> y \<le> 9999 \<and> 1 \<le> m \<and> m \<le> 12 \<and> 1 \<le> d \<and> d \<le> days_in_month y m)"

definition valid_offset :: "int option \<Rightarrow> bool" where
  "valid_offset tz = (case tz of None \<Rightarrow> True | Some off \<Rightarrow> - DAY < off \<and> off < DAY)"

definition valid_datetime :: "datetime \<Rightarrow> bool" where
  "valid_datetime d =
     (valid_date (year d) (month d) (day d) \<and> hour d < 24 \<and> minute d < 60 \<and> second d < 60
      \<and> microsecond d < 1000000 \<and> valid_offset (tzinfo d))"

definition make_datetime :: "nat \<Rightarrow> nat \<Rightarrow> nat \<Rightarrow> nat \<Rightarrow> nat \<Rightarrow> nat \<Rightarrow> nat \<Rightarrow> int option \<Rightarrow> pyexn + datetime" where
  "make_datetime y m d hh mm ss us tz =
     (let dt = \<lparr>year = y, month = m, day = d, hour = hh, minute = mm, second = ss,
                microsecond = us, tzinfo = tz\<rparr>
      in if valid_datetime dt then Inr dt else Inl (ValueError ''out of range''))"

subsection \<open>The instant a value denotes\<close>

text \<open>
  Days before 1 January of year \<open>y\<close> and before the first of month \<open>m\<close>, the proleptic
  Gregorian ordinal of a date (1 is 0001-01-01), and the microseconds from the start
  of day 0 to the instant a datetime denotes, a naive one being read as UTC.
\<close>

definition days_before_year :: "nat \<Rightarrow> int" where
  "days_before_year y = (let p = int y - 1 in p * 365 + p div 4 - p div 100 + p div 400)"

definition days_before_month :: "nat \<Rightarrow> nat \<Rightarrow> int" where
  "days_before_month y m = int (sum_list (map (days_in_month y) [1..<m]))"

definition ymd2ord :: "nat \<Rightarrow> nat \<Rightarrow> nat \<Rightarrow> int" where
  "ymd2ord y m d = days_before_year y + days_before_month y m + int d"

definition time_of_day :: "datetime \<Rightarrow> int" where
  "time_of_day d =
     ((int (hour d) * 60 + int (minute d)) * 60 + int (second d)) * 1000000 + int (microsecond d)"

definition utc_instant :: "datetime \<Rightarrow> int" where
  "utc_instant d =
     ymd2ord (year d) (month d) (day d) * DAY + time_of_day d
       - (case tzinfo d of None \<Rightarrow> 0 | Some off \<Rightarrow> off)"

subsection \<open>\<open>replace(tzinfo=timezone.utc)\<close> and \<open>astimezone(timezone.utc)\<close>\<close>

definition replace_tzinfo_utc :: "datetime \<Rightarrow> datetime" where
  "replace_tzinfo_utc d = d\<lparr>tzinfo := Some 0\<rparr>"

definition next_day :: "nat \<times> nat \<times> nat \<Rightarrow> nat \<times> nat \<times> nat" where
  "next_day ymd =
     (case ymd of (y, m, d) \<Rightarrow>
        if d < days_in_month y m then (y, m, d + 1)
        else if m < 12 then (y, m + 1, 1)
        else (y + 1, 1, 1))"

definition prev_day :: "nat \<times> nat \<times> nat \<Rightarrow> nat \<times> nat \<times> nat" where
  "prev_day ymd =
     (case ymd of (y, m, d) \<Rightarrow>
        if 1 < d then (y, m, d - 1)
        else if 1 < m then (y, m - 1, days_in_month y (m - 1))
        else (y - 1, 12, 31))"

text \<open>
  \<open>astimezone(timezone.utc)\<close> of an aware value: the offset is subtracted from the
  local time, which moves the date by at most one day, and the result carries
  \<open>timezone.utc\<close>. It raises \<open>OverflowError\<close> when the date leaves the years 1 to
  9999. (The naive case, which the program never reaches, would take the machine's
  local zone and is outside this model: it is answered with \<open>ValueError\<close>.)
\<close>

definition shift_date :: "nat \<times> nat \<times> nat \<Rightarrow> int \<Rightarrow> (nat \<times> nat \<times> nat) \<times> int" where
  "shift_date ymd t =
     (if t < 0 then (prev_day ymd, t + DAY)
      else if DAY \<le> t then (next_day ymd, t - DAY)
      else (ymd, t))"

definition astimezone_utc :: "datetime \<Rightarrow> pyexn + datetime" where
  "astimezone_utc d =
     (case tzinfo d of
        None \<Rightarrow> Inl (ValueError ''naive'')
      | Some off \<Rightarrow>
         (case shift_date (year d, month d, day d) (time_of_day d - off) of
            ((y', m', d'), t') \<Rightarrow>
              if y' < 1 \<or> 9999 < y' then Inl OverflowError
              else Inr \<lparr>year = y', month = m', day = d',
                       hour = nat (t' div 3600000000),
                       minute = nat (t' div 60000000 mod 60),
                       second = nat (t' div 1000000 mod 60),
                       microsecond = nat (t' mod 1000000),
                       tzinfo = Some 0\<rparr>))"

subsection \<open>\<open>isoformat()\<close>\<close>

text \<open>\<open>'%0wd' % n\<close> for a natural number.\<close>

fun zpad :: "nat \<Rightarrow> nat \<Rightarrow> string" where
  "zpad w n = (if n < 10 then replicate (w - 1) CHR ''0'' @ [digit_char n]
               else zpad (w - 1) (n div 10) @ [digit_char (n mod 10)])"

declare zpad.simps [simp del]

text \<open>\<open>_format_offset\<close>: empty for a naive value, else \<open>+HH:MM[:SS[.ffffff]]\<close>.\<close>

definition format_offset :: "int option \<Rightarrow> string" where
  "format_offset tz =
     (case tz of
        None \<Rightarrow> []
      | Some off \<Rightarrow>
         (let sign = (if off < 0 then ''-'' else ''+'');
              a = nat \<bar>off\<bar>;
              hh = a div 3600000000;
              mm = a div 60000000 mod 60;
              ss = a div 1000000 mod 60;
              us = a mod 1000000
          in sign @ zpad 2 hh @ '':'' @ zpad 2 mm
             @ (if ss \<noteq> 0 \<or> us \<noteq> 0
                then '':'' @ zpad 2 ss @ (if us \<noteq> 0 then ''.'' @ zpad 6 us else [])
                else [])))"

definition isoformat :: "datetime \<Rightarrow> string" where
  "isoformat d =
     zpad 4 (year d) @ ''-'' @ zpad 2 (month d) @ ''-'' @ zpad 2 (day d) @ ''T''
     @ zpad 2 (hour d) @ '':'' @ zpad 2 (minute d) @ '':'' @ zpad 2 (second d)
     @ (if microsecond d \<noteq> 0 then ''.'' @ zpad 6 (microsecond d) else [])
     @ format_offset (tzinfo d)"

subsection \<open>\<open>datetime.fromisoformat\<close>\<close>

text \<open>
  The grammar documented for Python 3.7 to 3.10, which is what \<open>isoformat\<close> emits
  together with shortened times:
  \<open>YYYY-MM-DD[*HH[:MM[:SS[.fff[fff]]]][+HH:MM[:SS[.ffffff]]]]\<close>, the \<open>*\<close> being any one
  character and the sign of the offset \<open>+\<close> or \<open>-\<close>. Every other string is a
  \<open>ValueError\<close>, as is a field out of range.
\<close>

definition digit_val :: "char \<Rightarrow> nat option" where
  "digit_val c = map_of (zip ''0123456789'' [0, 1, 2, 3, 4, 5, 6, 7, 8, 9]) c"

fun digits_acc :: "nat \<Rightarrow> string \<Rightarrow> nat option" where
  "digits_acc acc [] = Some acc"
| "digits_acc acc (c # cs) =
     (case digit_val c of None \<Rightarrow> None | Some v \<Rightarrow> digits_acc (10 * acc + v) cs)"

text \<open>A field of exactly \<open>w\<close> decimal digits.\<close>

definition parse_digits :: "nat \<Rightarrow> string \<Rightarrow> nat option" where
  "parse_digits w s = (if length s = w \<and> 0 < w then digits_acc 0 s else None)"

definition parse_isoformat_date :: "string \<Rightarrow> (nat \<times> nat \<times> nat) option" where
  "parse_isoformat_date dstr =
     (if length dstr \<noteq> 10 \<or> dstr ! 4 \<noteq> CHR ''-'' \<or> dstr ! 7 \<noteq> CHR ''-'' then None
      else case (parse_digits 4 (take 4 dstr), parse_digits 2 (take 2 (drop 5 dstr)),
                 parse_digits 2 (drop 8 dstr)) of
             (Some y, Some m, Some d) \<Rightarrow> Some (y, m, d)
           | _ \<Rightarrow> None)"

text \<open>\<open>HH[:MM[:SS[.fff[fff]]]]\<close>\<close>

definition parse_fraction :: "string \<Rightarrow> nat option" where
  "parse_fraction s =
     (if length s = 6 then parse_digits 6 s
      else if length s = 3 then map_option (\<lambda>n. n * 1000) (parse_digits 3 s)
      else None)"

definition parse_hh_mm_ss_ff :: "string \<Rightarrow> (nat \<times> nat \<times> nat \<times> nat) option" where
  "parse_hh_mm_ss_ff tstr =
     (case parse_digits 2 (take 2 tstr) of
        None \<Rightarrow> None
      | Some hh \<Rightarrow>
         if drop 2 tstr = [] then Some (hh, 0, 0, 0)
         else if tstr ! 2 \<noteq> CHR '':'' then None
         else
           (case parse_digits 2 (take 2 (drop 3 tstr)) of
              None \<Rightarrow> None
            | Some mm \<Rightarrow>
               if drop 5 tstr = [] then Some (hh, mm, 0, 0)
               else if tstr ! 5 \<noteq> CHR '':'' then None
               else
                 (case parse_digits 2 (take 2 (drop 6 tstr)) of
                    None \<Rightarrow> None
                  | Some ss \<Rightarrow>
                     if drop 8 tstr = [] then Some (hh, mm, ss, 0)
                     else if tstr ! 8 \<noteq> CHR ''.'' then None
                     else map_option (\<lambda>us. (hh, mm, ss, us)) (parse_fraction (drop 9 tstr)))))"

text \<open>The time part is cut at its first \<open>+\<close> or \<open>-\<close>, the sign of the offset.\<close>

definition is_sign :: "char \<Rightarrow> bool" where
  "is_sign c = (c = CHR ''+'' \<or> c = CHR ''-'')"

definition parse_tz :: "string \<Rightarrow> int option option" where
  "parse_tz s =
     (case s of
        [] \<Rightarrow> Some None
      | sign # tzstr \<Rightarrow>
         if length tzstr \<noteq> 5 \<and> length tzstr \<noteq> 8 \<and> length tzstr \<noteq> 15 then None
         else
           (case parse_hh_mm_ss_ff tzstr of
              None \<Rightarrow> None
            | Some (hh, mm, ss, us) \<Rightarrow>
               let off = ((int hh * 60 + int mm) * 60 + int ss) * 1000000 + int us
               in Some (Some (if sign = CHR ''-'' then - off else off))))"

definition parse_isoformat_time :: "string \<Rightarrow> (nat \<times> nat \<times> nat \<times> nat \<times> int option) option" where
  "parse_isoformat_time tstr =
     (case parse_hh_mm_ss_ff (takeWhile (\<lambda>c. \<not> is_sign c) tstr) of
        None \<Rightarrow> None
      | Some (hh, mm, ss, us) \<Rightarrow>
         (case parse_tz (dropWhile (\<lambda>c. \<not> is_sign c) tstr) of
            None \<Rightarrow> None
          | Some tz \<Rightarrow> Some (hh, mm, ss, us, tz)))"

definition fromisoformat :: "string \<Rightarrow> pyexn + datetime" where
  "fromisoformat s =
     (case parse_isoformat_date (take 10 s) of
        None \<Rightarrow> Inl (ValueError ''Invalid isoformat string'')
      | Some (y, m, d) \<Rightarrow>
         if length s = 10 then make_datetime y m d 0 0 0 0 None
         else
           (case parse_isoformat_time (drop 11 s) of
              None \<Rightarrow> Inl (ValueError ''Invalid isoformat string'')
            | Some (hh, mm, ss, us, tz) \<Rightarrow> make_datetime y m d hh mm ss us tz))"

section \<open>The expiry of the stored credential\<close>

text \<open>\<open>s.endswith(suffix)\<close> and \<open>s.replace(old, new)\<close> on strings.\<close>

definition ends_with :: "string \<Rightarrow> string \<Rightarrow> bool" where
  "ends_with suffix s =
     (length suffix \<le> length s \<and> drop (length s - length suffix) s = suffix)"

fun replace_from :: "string \<Rightarrow> string \<Rightarrow> string \<Rightarrow> string" where
  "replace_from old new [] = []"
| "replace_from old new (c # cs) =
     (if starts_with old (c # cs) then new @ replace_from old new (drop (length old - 1) cs)
      else c # replace_from old new cs)"

definition str_replace :: "string \<Rightarrow> string \<Rightarrow> string \<Rightarrow> string" where
  "str_replace old new s =
     (if old = [] then new @ concat (map (\<lambda>c. c # new) s) else replace_from old new s)"

text \<open>
  Reading the stored expiry, as \<open>authenticate_gmail\<close>, \<open>load_and_authenticate\<close> and
  \<open>fix_token_timezone\<close> all do: a trailing \<open>Z\<close> becomes \<open>+00:00\<close>, the string is
  parsed, a naive value is given \<open>timezone.utc\<close> and an aware one is converted to it.
\<close>

definition zulu_to_offset :: "string \<Rightarrow> string" where
  "zulu_to_offset expiry_str =
     (if ends_with ''Z'' expiry_str then butlast expiry_str @ ''+00:00'' else expiry_str)"

definition to_utc :: "datetime \<Rightarrow> pyexn + datetime" where
  "to_utc expiry_dt =
     (case tzinfo expiry_dt of
        None \<Rightarrow> Inr (replace_tzinfo_utc expiry_dt)
      | Some off \<Rightarrow> astimezone_utc expiry_dt)"

definition parse_expiry :: "string \<Rightarrow> pyexn + datetime" where
  "parse_expiry expiry_str =
     (case fromisoformat (zulu_to_offset expiry_str) of
        Inl e \<Rightarrow> Inl e
      | Inr expiry_dt \<Rightarrow> to_utc expiry_dt)"

text \<open>Writing it back: \<open>expiry_dt.isoformat().replace('+00:00', 'Z')\<close>.\<close>

definition format_expiry :: "datetime \<Rightarrow> string" where
  "format_expiry expiry_dt = str_replace ''+00:00'' ''Z'' (isoformat expiry_dt)"

subsection \<open>\<open>fix_token_timezone\<close>\<close>

text \<open>\<open>d[key] = value\<close> on the items of a dict.\<close>

definition dict_set :: "string \<Rightarrow> json \<Rightarrow> (string \<times> json) list \<Rightarrow> (string \<times> json) list" where
  "dict_set key v kvs =
     (if map_of kvs key = None then kvs @ [(key, v)]
      else map (\<lambda>(k, w). if k = key then (k, v) else (k, w)) kvs)"

text \<open>
  The repair script: the result is what it writes to the token file (\<open>None\<close>: nothing)
  and the boolean it returns. Every exception inside it, also that of a failed write
  (\<open>write_ok\<close> false), is turned into \<open>False\<close>.
\<close>

definition fix_token_timezone :: "bool \<Rightarrow> config_file \<Rightarrow> json option \<times> bool" where
  "fix_token_timezone write_ok f =
     (case f of
        Missing \<Rightarrow> (None, False)
      | Unparsable \<Rightarrow> (None, False)
      | Parsed token_data \<Rightarrow>
         (case token_data of
            JObject kvs \<Rightarrow>
              (case (case map_of kvs ''expiry'' of
                       None \<Rightarrow> Inr kvs
                     | Some v \<Rightarrow>
                         if \<not> truthy v then Inr kvs
                         else (case v of
                                 JStr expiry_str \<Rightarrow>
                                   (case parse_expiry expiry_str of
                                      Inl e \<Rightarrow> Inl e
                                    | Inr expiry_dt \<Rightarrow>
                                        Inr (dict_set ''expiry''
                                               (JStr (format_expiry expiry_dt)) kvs))
                               | _ \<Rightarrow> Inl AttributeError)) of
                 Inl e \<Rightarrow> (None, False)
               | Inr kvs' \<Rightarrow> if write_ok then (Some (JObject kvs'), True) else (None, False))
          | _ \<Rightarrow> (None, False)))"

section \<open>Notifier: \<open>HeartbeatMonitor.authenticate_gmail\<close>\<close>

text \<open>
  The \<open>Credentials\<close> object, by the attributes the program reads and writes. The
  values handed to its constructor come straight from the token file.
\<close>

record credentials =
  token :: json
  refresh_token :: json
  token_uri :: json
  client_id :: json
  client_secret :: json
  scopes :: json
  expiry :: "datetime option"

definition SCOPES :: json where
  "SCOPES = JList [JStr ''https://www.googleapis.com/auth/gmail.send'']"

text \<open>\<open>token_data.get(key, default)\<close> on the items of the loaded dict.\<close>

definition dict_get :: "(string \<times> json) list \<Rightarrow> string \<Rightarrow> json \<Rightarrow> json" where
  "dict_get kvs key dflt = (case map_of kvs key of None \<Rightarrow> dflt | Some v \<Rightarrow> v)"

text \<open>
  Lines 135 to 148: the expiry is set only when the stored value is present, true in
  Python's sense and readable; every exception on the way is logged and swallowed,
  which leaves the credential without expiry.
\<close>

definition load_expiry :: "(string \<times> json) list \<Rightarrow> datetime option" where
  "load_expiry kvs =
     (case map_of kvs ''expiry'' of
        None \<Rightarrow> None
      | Some v \<Rightarrow>
          if \<not> truthy v then None
          else (case v of
                  JStr expiry_str \<Rightarrow>
                    (case parse_expiry expiry_str of Inl e \<Rightarrow> None | Inr expiry_dt \<Rightarrow> Some expiry_dt)
                | _ \<Rightarrow> None))"

text \<open>
  Lines 125 to 148. Only a dict has \<open>get\<close>; any other loaded value raises
  \<open>AttributeError\<close>.
\<close>

definition load_credentials :: "json \<Rightarrow> pyexn + credentials" where
  "load_credentials token_data =
     (case token_data of
        JObject kvs \<Rightarrow>
          Inr \<lparr>token = dict_get kvs ''token'' JNull,
               refresh_token = dict_get kvs ''refresh_token'' JNull,
               token_uri = dict_get kvs ''token_uri'' JNull,
               client_id = dict_get kvs ''client_id'' JNull,
               client_secret = dict_get kvs ''client_secret'' JNull,
               scopes = dict_get kvs ''scopes'' SCOPES,
               expiry = load_expiry kvs\<rparr>
      | _ \<Rightarrow> Inl AttributeError)"

text \<open>
  Lines 150 to 155: the outcome of the library's \<open>creds.valid\<close> is taken as it is,
  except that \<open>TypeError\<close> and \<open>AttributeError\<close> count as not valid.
\<close>

fun check_valid :: "pyexn + bool \<Rightarrow> pyexn + bool" where
  "check_valid (Inr b) = Inr b"
| "check_valid (Inl TypeError) = Inr False"
| "check_valid (Inl AttributeError) = Inr False"
| "check_valid (Inl e) = Inl e"

text \<open>
  Modelled from the spec: \<open>Credentials.valid\<close> belongs to the google-auth library and is
  not among the sources. Following section 4.3 of the specification, a credential is
  valid only if an access token is present and either no expiry is recorded or the
  expiry is strictly in the future, expiry and clock both in UTC; an expiry without
  timezone cannot be compared with the clock and makes the check throw. \<open>now\<close> is the
  clock, in the microseconds of \<open>utc_instant\<close>.
\<close>

definition creds_valid :: "int \<Rightarrow> credentials \<Rightarrow> pyexn + bool" where
  "creds_valid now c =
     (if token c = JNull then Inr False
      else case expiry c of
             None \<Rightarrow> Inr True
           | Some dt \<Rightarrow>
               (case tzinfo dt of
                  None \<Rightarrow> Inl TypeError
                | Some off \<Rightarrow> Inr (now < utc_instant dt)))"

text \<open>Lines 163 to 178: the dict written after a refresh.\<close>

definition saved_token_data :: "credentials \<Rightarrow> pyexn + json" where
  "saved_token_data creds =
     (case (case expiry creds of
              None \<Rightarrow> Inr JNull
            | Some dt \<Rightarrow>
                (case to_utc dt of
                   Inl e \<Rightarrow> Inl e
                 | Inr expiry_dt \<Rightarrow> Inr (JStr (format_expiry expiry_dt)))) of
        Inl e \<Rightarrow> Inl e
      | Inr expiry_str \<Rightarrow>
          Inr (JObject
            [(''token'', token creds),
             (''refresh_token'', refresh_token creds),
             (''token_uri'', token_uri creds),
             (''client_id'', client_id creds),
             (''client_secret'', client_secret creds),
             (''scopes'', scopes creds),
             (''universe_domain'', JStr ''googleapis.com''),
             (''account'', JStr []),
             (''expiry'', expiry_str)]))"

text \<open>
  What one call of \<open>authenticate_gmail\<close> meets outside the program: the token file, the
  library's validity check and refresh exchange (which updates the credential or
  raises), and whether writing the token file and building the service succeed.
\<close>

record auth_env =
  token_file :: config_file
  valid :: "credentials \<Rightarrow> pyexn + bool"
  refresh :: "credentials \<Rightarrow> pyexn + credentials"
  write_ok :: bool
  build_ok :: bool

text \<open>The steps of a call that reach outside, in the order they happen.\<close>

datatype event =
    LoadedToken
  | RefreshCalled
  | WroteToken json
  | BuiltService credentials

text \<open>
  \<open>authenticate_gmail\<close>: the events of the call, the service it leaves in
  \<open>self.gmail_service\<close> (by the credential it was built with) and the boolean returned.
  The handler \<open>except Exception\<close> around the whole body turns every exception into
  \<open>False\<close>.
\<close>

definition authenticate_gmail :: "auth_env \<Rightarrow> event list \<times> credentials option \<times> bool" where
  "authenticate_gmail env =
     (case token_file env of
        Missing \<Rightarrow> ([], None, False)
      | Unparsable \<Rightarrow> ([], None, False)
      | Parsed token_data \<Rightarrow>
         (case load_credentials token_data of
            Inl e \<Rightarrow> ([LoadedToken], None, False)
          | Inr creds \<Rightarrow>
             (case check_valid (valid env creds) of
                Inl e \<Rightarrow> ([LoadedToken], None, False)
              | Inr is_valid \<Rightarrow>
                 if \<not> is_valid then
                   (case refresh env creds of
                      Inl e \<Rightarrow> ([LoadedToken, RefreshCalled], None, False)
                    | Inr creds' \<Rightarrow>
                       (case saved_token_data creds' of
                          Inl e \<Rightarrow> ([LoadedToken, RefreshCalled], None, False)
                        | Inr token_data' \<Rightarrow>
                           if \<not> write_ok env then ([LoadedToken, RefreshCalled], None, False)
                           else if \<not> build_ok env then
                             ([LoadedToken, RefreshCalled, WroteToken token_data'], None, False)
                           else
                             ([LoadedToken, RefreshCalled, WroteToken token_data',
                               BuiltService creds'], Some creds', True)))
                 else if \<not> build_ok env then ([LoadedToken], None, False)
                 else ([LoadedToken, BuiltService creds], Some creds, True))))"

section \<open>Properties of the incident tracker\<close>

lemma run_check_healthy:
  "run_check cfg now (True, m) st =
     Inr (st\<lparr>last_check_time := Some now, consecutive_failures := 0, last_alert_sent := False\<rparr>, NoAction)"
  by (simp add: run_check_def)

lemma run_check_unhealthy:
  assumes "config_get cfg ''max_consecutive_failures'' (JInt 2) = JInt thr"
  shows "run_check cfg now (False, m) st =
     Inr (st\<lparr>last_check_time := Some now,
              consecutive_failures := consecutive_failures st + 1,
              last_alert_sent := (last_alert_sent st \<or> thr \<le> consecutive_failures st + 1)\<rparr>,
          if thr \<le> consecutive_failures st + 1 \<and> \<not> last_alert_sent st
          then SendAlert m (consecutive_failures st + 1) else NoAction)"
  using assms by (cases st) (auto simp add: run_check_def Let_def)

lemma streak:
  assumes thr: "config_get cfg ''max_consecutive_failures'' (JInt 2) = JInt thr"
  shows "(\<forall>t\<in>set ticks. \<not> fst (snd t)) \<Longrightarrow>
         last_alert_sent st = (thr \<le> consecutive_failures st) \<Longrightarrow>
         \<exists>st' acts. run_checks cfg st ticks = Inr (st', acts)
           \<and> consecutive_failures st' = consecutive_failures st + int (length ticks)
           \<and> last_alert_sent st' = (thr \<le> consecutive_failures st')
           \<and> length acts = length ticks
           \<and> length (filter is_alert acts) =
               (if consecutive_failures st < thr \<and> thr \<le> consecutive_failures st + int (length ticks)
                then 1 else 0)
           \<and> (\<forall>i<length ticks. acts ! i =
                 (if consecutive_failures st + int i + 1 = thr
                  then SendAlert (snd (snd (ticks ! i))) thr else NoAction))"
proof (induction ticks arbitrary: st)
  case Nil
  then show ?case by simp
next
  case (Cons t ts)
  obtain now m where t: "t = (now, False, m)"
    using Cons.prems(1) by (cases t) auto
  let ?st1 = "st\<lparr>last_check_time := Some now,
              consecutive_failures := consecutive_failures st + 1,
              last_alert_sent := (last_alert_sent st \<or> thr \<le> consecutive_failures st + 1)\<rparr>"
  let ?a = "if thr \<le> consecutive_failures st + 1 \<and> \<not> last_alert_sent st
          then SendAlert m (consecutive_failures st + 1) else NoAction"
  have step: "run_check cfg (fst t) (snd t) st = Inr (?st1, ?a)"
    unfolding t using run_check_unhealthy [OF thr] by simp
  have inv1: "last_alert_sent ?st1 = (thr \<le> consecutive_failures ?st1)"
    using Cons.prems(2) by auto
  have un: "\<forall>t\<in>set ts. \<not> fst (snd t)" using Cons.prems(1) by simp
  from Cons.IH [OF un inv1] obtain st' acts where
    r: "run_checks cfg ?st1 ts = Inr (st', acts)"
    and c: "consecutive_failures st' = consecutive_failures ?st1 + int (length ts)"
    and l: "last_alert_sent st' = (thr \<le> consecutive_failures st')"
    and n: "length acts = length ts"
    and f: "length (filter is_alert acts) =
               (if consecutive_failures ?st1 < thr \<and> thr \<le> consecutive_failures ?st1 + int (length ts)
                then 1 else 0)"
    and a: "\<forall>i<length ts. acts ! i =
                 (if consecutive_failures ?st1 + int i + 1 = thr
                  then SendAlert (snd (snd (ts ! i))) thr else NoAction)"
    by blast
  have run: "run_checks cfg st (t # ts) = Inr (st', ?a # acts)"
    using step r by simp
  have a0: "?a = (if consecutive_failures st + 1 = thr then SendAlert m thr else NoAction)"
    using Cons.prems(2) by auto
  have nth: "\<forall>i<length (t # ts). (?a # acts) ! i =
                 (if consecutive_failures st + int i + 1 = thr
                  then SendAlert (snd (snd ((t # ts) ! i))) thr else NoAction)"
  proof (intro allI impI)
    fix i assume i: "i < length (t # ts)"
    show "(?a # acts) ! i =
                 (if consecutive_failures st + int i + 1 = thr
                  then SendAlert (snd (snd ((t # ts) ! i))) thr else NoAction)"
    proof (cases i)
      case 0
      then show ?thesis using a0 t by simp
    next
      case (Suc j)
      then have "j < length ts" using i by simp
      with a have "acts ! j = (if consecutive_failures ?st1 + int j + 1 = thr
                  then SendAlert (snd (snd (ts ! j))) thr else NoAction)" by blast
      then show ?thesis using Suc by (simp add: add.commute add.left_commute)
    qed
  qed
  have cnt: "length (filter is_alert (?a # acts)) =
               (if consecutive_failures st < thr \<and> thr \<le> consecutive_failures st + int (length (t # ts))
                then 1 else 0)"
    using f a0 by (auto split: if_splits)
  show ?case
    using run c l n nth cnt by (intro exI [of _ st'] exI [of _ "?a # acts"]) simp
qed


text \<open>
  Claim C1. With an integer threshold \<open>thr \<ge> 1\<close> configured, from the reset state
  (no failures counted, latch open), any run of \<open>N \<ge> thr\<close> unhealthy checks is
  processed without an exception and yields one action per check; exactly one of them
  is an alert; the alert is the action of check number \<open>thr\<close>, the first at which the
  counter equals the threshold, and it carries that check's reason and the count
  \<open>thr\<close>; every other check yields no action. After \<open>k\<close> checks of the run the counter
  is \<open>k\<close>, so the checks after the alert keep counting.
\<close>

theorem unhealthy_streak_alerts_once:
  assumes thr: "config_get cfg ''max_consecutive_failures'' (JInt 2) = JInt thr"
    and pos: "1 \<le> thr"
    and reset: "consecutive_failures st = 0" "\<not> last_alert_sent st"
    and unhealthy: "\<forall>t\<in>set ticks. \<not> fst (snd t)"
    and long: "thr \<le> int (length ticks)"
  shows "\<exists>st' acts. run_checks cfg st ticks = Inr (st', acts)
           \<and> length acts = length ticks
           \<and> consecutive_failures st' = int (length ticks)
           \<and> length (filter is_alert acts) = 1
           \<and> (\<forall>i<length ticks. acts ! i =
                 (if int i + 1 = thr then SendAlert (snd (snd (ticks ! i))) thr else NoAction))
           \<and> (\<forall>k\<le>length ticks. \<exists>stk actsk.
                 run_checks cfg st (take k ticks) = Inr (stk, actsk)
                 \<and> consecutive_failures stk = int k
                 \<and> last_alert_sent stk = (thr \<le> int k))"
proof -
  have latch: "last_alert_sent st = (thr \<le> consecutive_failures st)"
    using pos reset by simp
  from streak [OF thr unhealthy latch] obtain st' acts where
    run: "run_checks cfg st ticks = Inr (st', acts)"
    and c: "consecutive_failures st' = int (length ticks)"
    and n: "length acts = length ticks"
    and f: "length (filter is_alert acts) = 1"
    and a: "\<forall>i<length ticks. acts ! i =
                 (if int i + 1 = thr then SendAlert (snd (snd (ticks ! i))) thr else NoAction)"
    using pos reset long by auto
  have pre: "\<exists>stk actsk. run_checks cfg st (take k ticks) = Inr (stk, actsk)
                 \<and> consecutive_failures stk = int k
                 \<and> last_alert_sent stk = (thr \<le> int k)" if k: "k \<le> length ticks" for k
  proof -
    have u: "\<forall>t\<in>set (take k ticks). \<not> fst (snd t)"
      using unhealthy by (meson in_set_takeD)
    have len: "length (take k ticks) = k" using k by simp
    from streak [OF thr u latch] show ?thesis
      unfolding len using reset by auto
  qed
  show ?thesis
    using run c n f a pre by blast
qed

theorem unhealthy_streak_alerts_once_witness:
  "\<exists>st'. run_checks [(''max_consecutive_failures'', JInt 2)] init_tracker
       [(10, False, Some ''down''), (20, False, Some ''down''), (30, False, Some ''down'')]
     = Inr (st', [NoAction, SendAlert (Some ''down'') 2, NoAction])
     \<and> consecutive_failures st' = 3
     \<and> length (filter is_alert [NoAction, SendAlert (Some ''down'') 2, NoAction]) = 1"
  using unhealthy_streak_alerts_once [of "[(''max_consecutive_failures'', JInt 2)]" 2 init_tracker
      "[(10, False, Some ''down''), (20, False, Some ''down''), (30, False, Some ''down'')]"]
  by (simp add: config_get_def init_tracker_def run_check_def)

text \<open>
  Claim C2. From any tracker state, a healthy check sets the failure count to 0 and the
  latch to false, records the check time and asks for no action; a second healthy check
  changes the check time only; and after the healthy check a run of at least \<open>thr\<close>
  unhealthy checks raises one fresh alert, at its check number \<open>thr\<close>.
\<close>

theorem healthy_resets_and_rearms:
  "run_check cfg now (True, m) st =
     Inr (\<lparr>last_check_time = Some now, consecutive_failures = 0, last_alert_sent = False\<rparr>, NoAction)
   \<and> run_check cfg now' (True, m')
        \<lparr>last_check_time = Some now, consecutive_failures = 0, last_alert_sent = False\<rparr> =
     Inr (\<lparr>last_check_time = Some now', consecutive_failures = 0, last_alert_sent = False\<rparr>, NoAction)
   \<and> (config_get cfg ''max_consecutive_failures'' (JInt 2) = JInt thr \<and> 1 \<le> thr
        \<and> (\<forall>t\<in>set ticks. \<not> fst (snd t)) \<and> thr \<le> int (length ticks) \<longrightarrow>
      (\<exists>st' acts. run_checks cfg st ((now, True, m) # ticks) = Inr (st', NoAction # acts)
         \<and> length acts = length ticks
         \<and> length (filter is_alert acts) = 1
         \<and> (\<forall>i<length ticks. acts ! i =
               (if int i + 1 = thr then SendAlert (snd (snd (ticks ! i))) thr else NoAction))))"
proof (intro conjI impI)
  show h: "run_check cfg now (True, m) st =
     Inr (\<lparr>last_check_time = Some now, consecutive_failures = 0, last_alert_sent = False\<rparr>, NoAction)"
    by (cases st) (simp add: run_check_def)
  show "run_check cfg now' (True, m')
        \<lparr>last_check_time = Some now, consecutive_failures = 0, last_alert_sent = False\<rparr> =
     Inr (\<lparr>last_check_time = Some now', consecutive_failures = 0, last_alert_sent = False\<rparr>, NoAction)"
    by (simp add: run_check_def)
  assume H: "config_get cfg ''max_consecutive_failures'' (JInt 2) = JInt thr \<and> 1 \<le> thr
        \<and> (\<forall>t\<in>set ticks. \<not> fst (snd t)) \<and> thr \<le> int (length ticks)"
  let ?r = "\<lparr>last_check_time = Some now, consecutive_failures = 0, last_alert_sent = False\<rparr>"
  have latch: "last_alert_sent ?r = (thr \<le> consecutive_failures ?r)"
    using H by simp
  from H have thr: "config_get cfg ''max_consecutive_failures'' (JInt 2) = JInt thr"
    and un: "\<forall>t\<in>set ticks. \<not> fst (snd t)" by simp_all
  from streak [OF thr un latch] obtain st' acts where
    "run_checks cfg ?r ticks = Inr (st', acts)"
    "length acts = length ticks"
    "length (filter is_alert acts) = 1"
    "\<forall>i<length ticks. acts ! i =
               (if int i + 1 = thr then SendAlert (snd (snd (ticks ! i))) thr else NoAction)"
    using H by auto
  then show "\<exists>st' acts. run_checks cfg st ((now, True, m) # ticks) = Inr (st', NoAction # acts)
         \<and> length acts = length ticks
         \<and> length (filter is_alert acts) = 1
         \<and> (\<forall>i<length ticks. acts ! i =
               (if int i + 1 = thr then SendAlert (snd (snd (ticks ! i))) thr else NoAction))"
    using h by auto
qed

theorem healthy_resets_and_rearms_witness:
  "\<exists>st'. run_checks [(''max_consecutive_failures'', JInt 2)]
       \<lparr>last_check_time = Some 5, consecutive_failures = 7, last_alert_sent = True\<rparr>
       [(10, True, None), (20, False, Some ''down''), (30, False, Some ''down'')]
     = Inr (st', [NoAction, NoAction, SendAlert (Some ''down'') 2])"
  using healthy_resets_and_rearms [of "[(''max_consecutive_failures'', JInt 2)]" 10 None
      "\<lparr>last_check_time = Some 5, consecutive_failures = 7, last_alert_sent = True\<rparr>" 0 None 2
      "[(20, False, Some ''down''), (30, False, Some ''down'')]"]
  by (simp add: config_get_def run_check_def)

lemma run_check_preserves_inv:
  assumes thr: "config_get cfg ''max_consecutive_failures'' (JInt 2) = JInt thr"
    and inv: "tracker_inv thr st"
  shows "\<exists>st' a. run_check cfg now res st = Inr (st', a) \<and> tracker_inv thr st'"
proof (cases res)
  case (Pair h m)
  show ?thesis
  proof (cases h)
    case True
    then show ?thesis using Pair run_check_healthy [of cfg now m st]
      by (simp add: tracker_inv_def)
  next
    case False
    then show ?thesis using Pair run_check_unhealthy [OF thr, of now m st] inv
      by (auto simp add: tracker_inv_def)
  qed
qed

lemma run_checks_preserve_inv:
  assumes thr: "config_get cfg ''max_consecutive_failures'' (JInt 2) = JInt thr"
  shows "tracker_inv thr st \<Longrightarrow>
         \<exists>st' acts. run_checks cfg st ticks = Inr (st', acts) \<and> tracker_inv thr st'"
proof (induction ticks arbitrary: st)
  case Nil
  then show ?case by simp
next
  case (Cons t ts)
  from run_check_preserves_inv [OF thr Cons.prems, of "fst t" "snd t"] obtain st1 a where
    s: "run_check cfg (fst t) (snd t) st = Inr (st1, a)" and i: "tracker_inv thr st1" by blast
  from Cons.IH [OF i] obtain st' acts where
    "run_checks cfg st1 ts = Inr (st', acts)" "tracker_inv thr st'" by blast
  then show ?case using s by simp
qed

text \<open>
  Claim C3. For a configured integer threshold, the latch invariant (alert sent only
  while the failure count is at or above the threshold) holds in the initial state, is
  preserved by every check, which never fails, and so holds after any sequence of
  checks from the initial state. The proof needs no lower bound on the threshold, so
  it covers every threshold \<open>\<ge> 1\<close>.
\<close>

theorem latch_invariant:
  assumes thr: "config_get cfg ''max_consecutive_failures'' (JInt 2) = JInt thr"
  shows "tracker_inv thr init_tracker
     \<and> (\<forall>now res st. tracker_inv thr st \<longrightarrow>
          (\<exists>st' a. run_check cfg now res st = Inr (st', a) \<and> tracker_inv thr st'))
     \<and> (\<forall>ticks. \<exists>st' acts. run_checks cfg init_tracker ticks = Inr (st', acts)
          \<and> tracker_inv thr st')"
proof -
  have i: "tracker_inv thr init_tracker"
    by (simp add: tracker_inv_def init_tracker_def)
  show ?thesis
    using i run_check_preserves_inv [OF thr] run_checks_preserve_inv [OF thr i] by blast
qed

theorem latch_invariant_witness:
  "tracker_inv 2 init_tracker
   \<and> (\<exists>st' acts. run_checks [(''max_consecutive_failures'', JInt 2)] init_tracker
         [(10, False, Some ''down''), (20, False, Some ''down'')] = Inr (st', acts)
        \<and> last_alert_sent st' \<and> 2 \<le> consecutive_failures st' \<and> tracker_inv 2 st')"
proof -
  have c: "config_get [(''max_consecutive_failures'', JInt 2)] ''max_consecutive_failures'' (JInt 2) = JInt 2"
    by (simp add: config_get_def)
  from latch_invariant [OF c] obtain st' acts where
    r: "run_checks [(''max_consecutive_failures'', JInt 2)] init_tracker
         [(10, False, Some ''down''), (20, False, Some ''down'')] = Inr (st', acts)"
    and t: "tracker_inv 2 st'" and i: "tracker_inv 2 init_tracker" by blast
  from r have "last_alert_sent st'"
    by (auto simp add: config_get_def run_check_def init_tracker_def)
  with t r i show ?thesis by (auto simp add: tracker_inv_def)
qed

section \<open>Properties of the probe evaluator and of the configuration\<close>

lemma starts_with_iff: "starts_with xs ys \<longleftrightarrow> (\<exists>ss. ys = xs @ ss)"
  by (induction xs ys rule: starts_with.induct) auto

lemma str_in_iff: "str_in xs ys \<longleftrightarrow> (\<exists>ps ss. ys = ps @ xs @ ss)"
proof (induction ys)
  case Nil
  then show ?case by simp
next
  case (Cons y ys)
  show ?case
  proof
    assume "str_in xs (y # ys)"
    then consider "starts_with xs (y # ys)" | "str_in xs ys" by auto
    then show "\<exists>ps ss. y # ys = ps @ xs @ ss"
    proof cases
      case 1
      then obtain ss where "y # ys = xs @ ss" using starts_with_iff by blast
      then have "y # ys = [] @ xs @ ss" by simp
      then show ?thesis by blast
    next
      case 2
      then obtain ps ss where "ys = ps @ xs @ ss" using Cons.IH by blast
      then have "y # ys = (y # ps) @ xs @ ss" by simp
      then show ?thesis by blast
    qed
  next
    assume "\<exists>ps ss. y # ys = ps @ xs @ ss"
    then obtain ps ss where e: "y # ys = ps @ xs @ ss" by blast
    show "str_in xs (y # ys)"
    proof (cases ps)
      case Nil
      then have "starts_with xs (y # ys)" using e starts_with_iff by auto
      then show ?thesis by simp
    next
      case (Cons p ps')
      then have "ys = ps' @ xs @ ss" using e by simp
      then have "str_in xs ys" using Cons.IH by blast
      then show ?thesis by simp
    qed
  qed
qed

text \<open>
  Claim C4. A probe outcome is classified healthy exactly when it is a response with
  status 200 whose text contains the marker \<open>C2SMART\<close> or is longer than 1000
  characters (the length \<open>len(response.text)\<close>, which the program's message calls
  bytes). A status-200 response of length 50 without the marker is unhealthy with the
  \<open>incomplete content\<close> reason, and a response with any other status is unhealthy with
  the status-code reason.
\<close>

theorem check_website_healthy_iff:
  "(fst (check_website repr cfg p) \<longleftrightarrow>
      (\<exists>status text. p = Response status text \<and> status = 200
         \<and> ((\<exists>ps ss. text = ps @ ''C2SMART'' @ ss) \<or> length text > 1000)))
   \<and> (\<forall>text. length text = 50 \<and> \<not> (\<exists>ps ss. text = ps @ ''C2SMART'' @ ss) \<longrightarrow>
         check_website repr cfg (Response 200 text) =
           (False, Some ''Website response abnormal: incomplete content (status code: 200, content length: 50 bytes)''))
   \<and> (\<forall>status text. status \<noteq> 200 \<longrightarrow>
         check_website repr cfg (Response status text) =
           (False, Some (''Website returned error status code: '' @ str_int status
              @ '' (URL: https://c2smart.engineering.nyu.edu/)'')))"
proof (intro conjI allI impI)
  show "fst (check_website repr cfg p) \<longleftrightarrow>
      (\<exists>status text. p = Response status text \<and> status = 200
         \<and> ((\<exists>ps ss. text = ps @ ''C2SMART'' @ ss) \<or> length text > 1000))"
    by (cases p) (auto simp add: check_website_def str_in_iff simp del: str_in.simps)
next
  fix body :: string
  assume a: "length body = 50 \<and> \<not> (\<exists>ps ss. body = ps @ ''C2SMART'' @ ss)"
  have s200: "str_int 200 = ''200''" by code_simp
  have s50: "str_int 50 = ''50''" by code_simp
  from a have "\<not> str_in ''C2SMART'' body" using str_in_iff by blast
  then show "check_website repr cfg (Response 200 body) =
           (False, Some ''Website response abnormal: incomplete content (status code: 200, content length: 50 bytes)'')"
    using a by (simp add: check_website_def s200 s50)
next
  fix status :: int and body :: string
  assume "status \<noteq> 200"
  then show "check_website repr cfg (Response status body) =
           (False, Some (''Website returned error status code: '' @ str_int status
              @ '' (URL: https://c2smart.engineering.nyu.edu/)''))"
    by (simp add: check_website_def WEBSITE_URL_def)
qed

theorem check_website_healthy_iff_witness:
  "check_website (\<lambda>v. []) [] (Response 200 ''<html><body><p>Under maintenance</p></body></html>'') =
     (False, Some ''Website response abnormal: incomplete content (status code: 200, content length: 50 bytes)'')
   \<and> check_website (\<lambda>v. []) [] (Response 503 []) =
     (False, Some ''Website returned error status code: 503 (URL: https://c2smart.engineering.nyu.edu/)'')
   \<and> fst (check_website (\<lambda>v. []) [] (Response 200 ''<title>C2SMART</title>''))"
proof -
  let ?b = "''<html><body><p>Under maintenance</p></body></html>''"
  let ?t = "''<title>C2SMART</title>''"
  note T = check_website_healthy_iff [of "\<lambda>v. []" "[]" "Response 200 ?t"]
  have "\<not> str_in ''C2SMART'' ?b" by simp
  then have n: "\<not> (\<exists>ps ss. ?b = ps @ ''C2SMART'' @ ss)"
    using str_in_iff by blast
  have l: "length ?b = 50" by simp
  have c1: "check_website (\<lambda>v. []) [] (Response 200 ?b) =
     (False, Some ''Website response abnormal: incomplete content (status code: 200, content length: 50 bytes)'')"
    using T [THEN conjunct2, THEN conjunct1] n l by blast
  have s: "str_int 503 = ''503''" by code_simp
  have "(503::int) \<noteq> 200" by simp
  then have "check_website (\<lambda>v. []) [] (Response 503 []) =
           (False, Some (''Website returned error status code: '' @ str_int 503
              @ '' (URL: https://c2smart.engineering.nyu.edu/)''))"
    using T [THEN conjunct2, THEN conjunct2] by blast
  then have c2: "check_website (\<lambda>v. []) [] (Response 503 []) =
     (False, Some ''Website returned error status code: 503 (URL: https://c2smart.engineering.nyu.edu/)'')"
    by (simp add: s)
  have "?t = ''<title>'' @ ''C2SMART'' @ ''</title>''" by simp
  then have "\<exists>ps ss. ?t = ps @ ''C2SMART'' @ ss" by blast
  then have c3: "fst (check_website (\<lambda>v. []) [] (Response 200 ?t))"
    using T [THEN conjunct1] by blast
  show ?thesis using c1 c2 c3 by blast
qed

lemma check_website_total:
  "check_website repr cfg p = (True, None) \<or> (\<exists>r. check_website repr cfg p = (False, Some r))"
  by (cases p) (simp_all add: check_website_def)

text \<open>
  Claim C6. \<open>check_website\<close> always returns a pair, healthy with no reason or unhealthy
  with a reason (\<open>check_website_total\<close>). The reason does not tell every failure
  category apart: \<open>requests.exceptions.SSLError\<close> derives from \<open>ConnectionError\<close>, whose
  handler comes first, so the \<open>SSL/TLS error\<close> handler is never reached
  (\<open>ssl_branch_unreachable\<close>) and a TLS failure gets the reason of a plain connection
  error with the same detail, as the theorem shows for a failed certificate check.
\<close>

theorem tls_failure_reported_as_connection_error:
  "check_website repr cfg (Raised SSLError ''certificate verify failed'') =
     (False, Some ''Connection error: Unable to connect to server at https://c2smart.engineering.nyu.edu/. Details: certificate verify failed'')
   \<and> check_website repr cfg (Raised SSLError ''certificate verify failed'') =
     check_website repr cfg (Raised ConnectionError ''certificate verify failed'')"
  by (simp add: check_website_def WEBSITE_URL_def)

lemma ssl_branch_unreachable:
  "isinstance c HSSLError \<Longrightarrow> isinstance c HConnectionError"
  by (cases c) simp_all

lemma missing_config_exits:
  "load_config Missing = (Some default_config, Inl (SystemExit 1)) \<and> main_startup Missing = Exit 1"
  by (simp add: load_config_def main_startup_def)

lemma empty_recipients_rejected:
  assumes "map_of kvs ''recipient_email'' = Some (JList [])"
  shows "snd (load_config (Parsed (JObject kvs))) =
           Inl (ValueError ''Please set recipient_email in the config file'')
         \<and> main_startup (Parsed (JObject kvs)) = Exit 1"
  using assms by (simp add: load_config_def main_startup_def required_keys_def check_key_def)

text \<open>
  Claim C9. A missing file makes \<open>load_config\<close> write the template and exit with
  status 1 (\<open>missing_config_exits\<close>), and an empty recipient list is a \<open>ValueError\<close>
  that ends \<open>main\<close> with status 1 (\<open>empty_recipients_rejected\<close>). The unedited
  placeholders are not rejected: the template that \<open>load_config\<close> itself writes passes
  validation and \<open>main\<close> goes on to \<open>monitor.run()\<close>, because the template's recipient
  is a list (only the bare string is compared with the placeholder) and its sender is
  \<open>your-email@gmail.com\<close> (the comparison is with \<open>your-sender@example.com\<close>).
\<close>

theorem unedited_template_accepted:
  "fst (load_config Missing) = Some default_config
   \<and> load_config (Parsed default_config) = (None, Inr default_config)
   \<and> main_startup (Parsed default_config) = EnterRun default_config"
  by (simp add: load_config_def main_startup_def required_keys_def check_key_def
      default_config_def split_first_def)

text \<open>
  Claim C10, as stated, fails at the empty string: it differs from the placeholder,
  yet \<open>not config[key]\<close> rejects it.
\<close>

theorem empty_recipient_string_rejected:
  "[] \<noteq> ''your-email@example.com''
   \<and> snd (load_config (Parsed (JObject
        [(''recipient_email'', JStr []), (''sender_email'', JStr ''monitor@example.org'')]))) =
      Inl (ValueError ''Please set recipient_email in the config file'')"
  by (simp add: load_config_def required_keys_def check_key_def)

lemma check_key_recipient:
  "check_key (JObject kvs) ''recipient_email'' = None \<longleftrightarrow>
     (\<exists>rv. map_of kvs ''recipient_email'' = Some rv \<and> recipient_ok rv)"
proof (cases "map_of kvs ''recipient_email''")
  case None
  then show ?thesis by (simp add: check_key_def)
next
  case (Some rv)
  then show ?thesis by (cases rv) (auto simp add: check_key_def)
qed

lemma check_key_sender:
  "check_key (JObject kvs) ''sender_email'' = None \<longleftrightarrow>
     (\<exists>sv. map_of kvs ''sender_email'' = Some sv \<and> sender_ok sv)"
proof (cases "map_of kvs ''sender_email''")
  case None
  then show ?thesis by (simp add: check_key_def)
next
  case (Some sv)
  then show ?thesis by (auto simp add: check_key_def sender_ok_def split_first_def)
qed

lemma load_config_accepts_iff:
  "snd (load_config (Parsed (JObject kvs))) = Inr (JObject kvs) \<longleftrightarrow>
     check_key (JObject kvs) ''recipient_email'' = None
     \<and> check_key (JObject kvs) ''sender_email'' = None"
  by (auto simp add: load_config_def required_keys_def split: option.splits)

lemma check_key_error:
  "check_key c k = Some e \<Longrightarrow> (\<exists>m. e = ValueError m) \<or> e = TypeError \<or> e = KeyError"
  by (cases c; cases "py_getitem c k")
     (auto simp add: check_key_def split: if_splits json.splits option.splits)

lemma check_keys_error:
  "check_keys c ks = Some e \<Longrightarrow> (\<exists>m. e = ValueError m) \<or> e = TypeError \<or> e = KeyError"
  by (induction ks) (auto split: option.splits dest: check_key_error)

lemma load_config_rejects:
  "snd (load_config (Parsed c)) \<noteq> Inr c \<Longrightarrow> main_startup (Parsed c) = Exit 1"
  by (auto simp add: load_config_def main_startup_def split: option.splits dest!: check_keys_error)

text \<open>
  Claim C10, amended. A configuration object passes \<open>load_config\<close> exactly when its
  recipient is a non-empty string other than \<open>your-email@example.com\<close> or a non-empty
  list, and its sender is set and is not \<open>your-sender@example.com\<close>; so a recipient of
  any other JSON type is rejected. A configuration that does not pass ends \<open>main\<close> with
  status 1. For a string recipient \<open>send_email\<close> puts exactly that string in the
  \<open>to\<close> header.
\<close>

theorem recipient_string_or_list:
  "(snd (load_config (Parsed (JObject kvs))) = Inr (JObject kvs) \<longleftrightarrow>
      (\<exists>rv sv. map_of kvs ''recipient_email'' = Some rv \<and> recipient_ok rv
         \<and> map_of kvs ''sender_email'' = Some sv \<and> sender_ok sv))
   \<and> (snd (load_config (Parsed (JObject kvs))) \<noteq> Inr (JObject kvs) \<longrightarrow>
        main_startup (Parsed (JObject kvs)) = Exit 1)
   \<and> message_to (JStr s) = Inr (JStr s)"
proof (intro conjI)
  show "snd (load_config (Parsed (JObject kvs))) = Inr (JObject kvs) \<longleftrightarrow>
      (\<exists>rv sv. map_of kvs ''recipient_email'' = Some rv \<and> recipient_ok rv
         \<and> map_of kvs ''sender_email'' = Some sv \<and> sender_ok sv)"
    unfolding load_config_accepts_iff check_key_recipient check_key_sender by blast
  show "snd (load_config (Parsed (JObject kvs))) \<noteq> Inr (JObject kvs) \<longrightarrow>
        main_startup (Parsed (JObject kvs)) = Exit 1"
    using load_config_rejects by blast
  show "message_to (JStr s) = Inr (JStr s)"
    by (simp add: message_to_def)
qed

theorem recipient_string_or_list_witness:
  "snd (load_config (Parsed (JObject
      [(''recipient_email'', JStr ''ops@example.org''), (''sender_email'', JStr ''monitor@example.org'')]))) =
     Inr (JObject
      [(''recipient_email'', JStr ''ops@example.org''), (''sender_email'', JStr ''monitor@example.org'')])
   \<and> main_startup (Parsed (JObject
      [(''recipient_email'', JInt 7), (''sender_email'', JStr ''monitor@example.org'')])) = Exit 1
   \<and> message_to (JStr ''ops@example.org'') = Inr (JStr ''ops@example.org'')"
proof -
  let ?good = "[(''recipient_email'', JStr ''ops@example.org''), (''sender_email'', JStr ''monitor@example.org'')]"
  let ?bad = "[(''recipient_email'', JInt 7), (''sender_email'', JStr ''monitor@example.org'')]"
  have g: "\<exists>rv sv. map_of ?good ''recipient_email'' = Some rv \<and> recipient_ok rv
         \<and> map_of ?good ''sender_email'' = Some sv \<and> sender_ok sv"
    by (simp add: sender_ok_def)
  have b: "\<not> (\<exists>rv sv. map_of ?bad ''recipient_email'' = Some rv \<and> recipient_ok rv
         \<and> map_of ?bad ''sender_email'' = Some sv \<and> sender_ok sv)"
    by simp
  have 1: "snd (load_config (Parsed (JObject ?good))) = Inr (JObject ?good)"
    using recipient_string_or_list [of ?good "''ops@example.org''"] g by blast
  have 2: "main_startup (Parsed (JObject ?bad)) = Exit 1"
    using recipient_string_or_list [of ?bad "''ops@example.org''"] b by blast
  have 3: "message_to (JStr ''ops@example.org'') = Inr (JStr ''ops@example.org'')"
    using recipient_string_or_list [of ?good "''ops@example.org''"] by blast
  show ?thesis using 1 2 3 by blast
qed

section \<open>Properties of dates, times and the stored expiry\<close>

lemma div_step:
  assumes n: "0 < n"
  shows "(p::int) div n = (p - 1) div n + (if p mod n = 0 then 1 else 0)"
proof -
  define q where "q = (p - 1) div n"
  define r where "r = (p - 1) mod n"
  have "p - 1 = n * q + r" by (simp add: q_def r_def)
  then have e: "p = n * q + (r + 1)" by simp
  have r0: "0 \<le> r" and rn: "r < n" using n by (simp_all add: r_def)
  show ?thesis
  proof (cases "r + 1 = n")
    case True
    then have e': "p = n * (q + 1) + 0" using e by (simp add: algebra_simps)
    have "p div n = q + 1" using int_div_pos_eq [OF e'] n by simp
    moreover have "p mod n = 0" using int_mod_pos_eq [OF e'] n by simp
    ultimately show ?thesis by (simp add: q_def)
  next
    case False
    then have lt: "r + 1 < n" using rn by simp
    have "p div n = q" using int_div_pos_eq [OF e] r0 lt by simp
    moreover have "p mod n = r + 1" using int_mod_pos_eq [OF e] r0 lt by simp
    ultimately show ?thesis using r0 by (simp add: q_def)
  qed
qed

lemma mod_400_100: "(p::int) mod 400 = 0 \<Longrightarrow> p mod 100 = 0"
proof -
  assume a: "p mod 400 = 0"
  have "p mod 100 = p mod 400 mod 100" by (simp add: mod_mod_cancel)
  then show ?thesis using a by simp
qed

lemma mod_100_4: "(p::int) mod 100 = 0 \<Longrightarrow> p mod 4 = 0"
proof -
  assume a: "p mod 100 = 0"
  have "p mod 4 = p mod 100 mod 4" by (simp add: mod_mod_cancel)
  then show ?thesis using a by simp
qed

lemma int_mod_0: "(int y mod int k = 0) = (y mod k = 0)"
  by (metis of_nat_0 of_nat_eq_iff of_nat_mod)

lemma is_leap_int:
  "is_leap y \<longleftrightarrow> (int y mod 4 = 0 \<and> (int y mod 100 \<noteq> 0 \<or> int y mod 400 = 0))"
  using int_mod_0 [of y 4] int_mod_0 [of y 100] int_mod_0 [of y 400]
  by (simp add: is_leap_def)

lemma gregorian_step:
  fixes p a b c :: int
  assumes d4: "p div 4 = a + (if p mod 4 = 0 then 1 else 0)"
    and d100: "p div 100 = b + (if p mod 100 = 0 then 1 else 0)"
    and d400: "p div 400 = c + (if p mod 400 = 0 then 1 else 0)"
  shows "p * 365 + p div 4 - p div 100 + p div 400 =
         (p - 1) * 365 + a - b + c
           + (if p mod 4 = 0 \<and> (p mod 100 \<noteq> 0 \<or> p mod 400 = 0) then 366 else 365)"
proof -
  have e: "(p - 1) * 365 = p * 365 - 365" by (simp add: left_diff_distrib)
  consider (a) "p mod 400 = 0" | (b) "p mod 400 \<noteq> 0" "p mod 100 = 0"
    | (c) "p mod 100 \<noteq> 0" "p mod 4 = 0" | (d) "p mod 4 \<noteq> 0"
    by blast
  then show ?thesis
  proof cases
    case a
    then have m100: "p mod 100 = 0" by (rule mod_400_100)
    then have m4: "p mod 4 = 0" by (rule mod_100_4)
    show ?thesis by (simp only: d4 d100 d400 e a m100 m4 if_True) simp
  next
    case b
    from b(2) have m4: "p mod 4 = 0" by (rule mod_100_4)
    show ?thesis by (simp only: d4 d100 d400 e b m4 if_True if_False) simp
  next
    case c
    have m400: "p mod 400 \<noteq> 0"
    proof
      assume "p mod 400 = 0"
      then have "p mod 100 = 0" by (rule mod_400_100)
      with c(1) show False by (rule notE)
    qed
    show ?thesis by (simp only: d4 d100 d400 e c m400 if_True if_False) simp
  next
    case d
    have m100: "p mod 100 \<noteq> 0"
    proof
      assume "p mod 100 = 0"
      then have "p mod 4 = 0" by (rule mod_100_4)
      with d show False by (rule notE)
    qed
    have m400: "p mod 400 \<noteq> 0"
    proof
      assume "p mod 400 = 0"
      then have "p mod 100 = 0" by (rule mod_400_100)
      with m100 show False by (rule notE)
    qed
    show ?thesis by (simp only: d4 d100 d400 e d m100 m400 if_True if_False) simp
  qed
qed

lemma days_before_year_Suc:
  "days_before_year (Suc y) = days_before_year y + (if is_leap y then 366 else 365)"
proof -
  define p where "p = int y"
  have s: "int (Suc y) - 1 = p" by (simp add: p_def)
  have d4: "p div 4 = (p - 1) div 4 + (if p mod 4 = 0 then 1 else 0)"
    by (rule div_step) simp
  have d100: "p div 100 = (p - 1) div 100 + (if p mod 100 = 0 then 1 else 0)"
    by (rule div_step) simp
  have d400: "p div 400 = (p - 1) div 400 + (if p mod 400 = 0 then 1 else 0)"
    by (rule div_step) simp
  show ?thesis
    unfolding days_before_year_def Let_def is_leap_int s
    unfolding p_def [symmetric]
    by (rule gregorian_step [OF d4 d100 d400])
qed

lemma days_before_month_Suc:
  "1 \<le> m \<Longrightarrow> days_before_month y (Suc m) = days_before_month y m + int (days_in_month y m)"
  by (simp add: days_before_month_def)

lemma days_before_month_1: "days_before_month y (Suc 0) = 0"
  by (simp add: days_before_month_def)

lemma upt_1_12: "[Suc 0..<12] = [1, 2, 3, 4, 5, 6, 7, 8, 9, 10, 11::nat]"
  by code_simp

lemma days_before_month_12:
  "days_before_month y 12 + 31 = (if is_leap y then 366 else 365)"
  by (simp add: days_before_month_def upt_1_12 days_in_month_def)

lemma days_in_month_pos: "1 \<le> days_in_month y m"
  by (simp add: days_in_month_def)

lemma ymd2ord_next_day:
  assumes "valid_date y m d" "next_day (y, m, d) = (y', m', d')"
  shows "ymd2ord y' m' d' = ymd2ord y m d + 1"
proof -
  consider (a) "d < days_in_month y m" | (b) "d = days_in_month y m" "m < 12"
    | (c) "d = days_in_month y m" "m = 12"
    using assms(1) unfolding valid_date_def by atomize_elim arith
  then show ?thesis
  proof cases
    case a
    then show ?thesis using assms(2) by (simp add: next_day_def ymd2ord_def)
  next
    case b
    have "1 \<le> m" using assms(1) by (simp add: valid_date_def)
    from days_before_month_Suc [OF this, of y] b assms(2) show ?thesis
      by (simp add: next_day_def ymd2ord_def)
  next
    case c
    have d31: "d = 31" using c by (simp add: days_in_month_def)
    from assms(2) c have e: "y' = Suc y" "m' = 1" "d' = 1"
      by (simp_all add: next_day_def)
    show ?thesis
      unfolding e ymd2ord_def c(2) d31
      using days_before_year_Suc [of y] days_before_month_12 [of y]
      by (simp add: days_before_month_1)
  qed
qed

lemma valid_next_day:
  assumes "valid_date y m d" "next_day (y, m, d) = (y', m', d')" "y' \<le> 9999"
  shows "valid_date y' m' d'"
proof -
  have v: "1 \<le> y" "y \<le> 9999" "1 \<le> m" "m \<le> 12" "1 \<le> d" "d \<le> days_in_month y m"
    using assms(1) by (simp_all add: valid_date_def)
  consider (a) "d < days_in_month y m" | (b) "\<not> d < days_in_month y m" "m < 12"
    | (c) "\<not> d < days_in_month y m" "\<not> m < 12"
    by blast
  then show ?thesis
  proof cases
    case a
    then show ?thesis using assms(2) v by (auto simp add: next_day_def valid_date_def)
  next
    case b
    then have "y' = y" "m' = m + 1" "d' = 1" using assms(2) by (simp_all add: next_day_def)
    then show ?thesis using v b days_in_month_pos [of y "m + 1"]
      by (simp add: valid_date_def)
  next
    case c
    then have "y' = y + 1" "m' = 1" "d' = 1" using assms(2) by (simp_all add: next_day_def)
    then show ?thesis using assms(3) by (simp add: valid_date_def days_in_month_def)
  qed
qed

lemma ymd2ord_prev_day:
  assumes "valid_date y m d" "prev_day (y, m, d) = (y', m', d')" "1 \<le> y'"
  shows "ymd2ord y' m' d' = ymd2ord y m d - 1"
proof -
  consider (a) "1 < d" | (b) "d = 1" "1 < m" | (c) "d = 1" "m = 1"
    using assms(1) unfolding valid_date_def by atomize_elim arith
  then show ?thesis
  proof cases
    case a
    then show ?thesis using assms(2) by (auto simp add: prev_day_def ymd2ord_def)
  next
    case b
    then obtain k where k: "m = Suc k" "1 \<le> k" by (cases m) auto
    from days_before_month_Suc [OF k(2), of y] b assms(2) k show ?thesis
      by (auto simp add: prev_day_def ymd2ord_def)
  next
    case c
    from assms(2) c have e: "y' = y - 1" "m' = 12" "d' = 31"
      by (simp_all add: prev_day_def)
    from assms(3) e have y: "y = Suc y'" by simp
    show ?thesis
      unfolding e(2,3) ymd2ord_def c y
      using days_before_year_Suc [of y'] days_before_month_12 [of y']
      by (simp add: days_before_month_1)
  qed
qed

lemma valid_prev_day:
  assumes "valid_date y m d" "prev_day (y, m, d) = (y', m', d')" "1 \<le> y'"
  shows "valid_date y' m' d'"
proof -
  have v: "1 \<le> y" "y \<le> 9999" "1 \<le> m" "m \<le> 12" "1 \<le> d" "d \<le> days_in_month y m"
    using assms(1) by (simp_all add: valid_date_def)
  consider (a) "1 < d" | (b) "\<not> 1 < d" "1 < m" | (c) "\<not> 1 < d" "\<not> 1 < m"
    by blast
  then show ?thesis
  proof cases
    case a
    then show ?thesis using assms(2) v by (auto simp add: prev_day_def valid_date_def)
  next
    case b
    then have e: "y' = y" "m' = m - 1" "d' = days_in_month y (m - 1)"
      using assms(2) by (auto simp add: prev_day_def)
    have m2: "2 \<le> m" using b(2) by simp
    show ?thesis unfolding e valid_date_def
      using v(1,2,4) m2 days_in_month_pos [of y "m - 1"] by simp arith
  next
    case c
    then have "y' = y - 1" "m' = 12" "d' = 31" using assms(2) by (simp_all add: prev_day_def)
    then show ?thesis using assms(3) v by (simp add: valid_date_def days_in_month_def)
  qed
qed

lemma time_fields:
  fixes t :: int
  assumes t0: "0 \<le> t" and tD: "t < DAY"
  shows "nat (t div 3600000000) < 24" "nat (t div 60000000 mod 60) < 60"
    "nat (t div 1000000 mod 60) < 60" "nat (t mod 1000000) < 1000000"
    "((int (nat (t div 3600000000)) * 60 + int (nat (t div 60000000 mod 60))) * 60
        + int (nat (t div 1000000 mod 60))) * 1000000 + int (nat (t mod 1000000)) = t"
proof -
  define u where "u = t div 1000000"
  define v where "v = u div 60"
  define h where "h = v div 60"
  have e1: "t div 60000000 = v"
    using zdiv_zmult2_eq [of 60 t 1000000] by (simp add: u_def v_def)
  have e2: "t div 3600000000 = h"
    using zdiv_zmult2_eq [of 60 t 60000000] e1 by (simp add: h_def)
  have t: "t = u * 1000000 + t mod 1000000" by (simp add: u_def)
  have u: "u = v * 60 + u mod 60" by (simp add: v_def)
  have v: "v = h * 60 + v mod 60" by (simp add: h_def)
  have r1: "0 \<le> t mod 1000000" "t mod 1000000 < 1000000" by simp_all
  have r2: "0 \<le> u mod 60" "u mod 60 < 60" by simp_all
  have r3: "0 \<le> v mod 60" "v mod 60 < 60" by simp_all
  have u0: "0 \<le> u" using t0 by (simp add: u_def)
  have v0: "0 \<le> v" using u0 by (simp add: v_def)
  have h0: "0 \<le> h" using v0 by (simp add: h_def)
  have tt: "t = ((h * 60 + v mod 60) * 60 + u mod 60) * 1000000 + t mod 1000000"
    using t u v by (simp add: algebra_simps)
  have h24: "h < 24" using tt r1 r2 r3 tD unfolding DAY_def by (simp add: algebra_simps)
  show "nat (t div 3600000000) < 24" using h24 h0 by (simp add: e2)
  show "nat (t div 60000000 mod 60) < 60" using r3 by (simp add: e1)
  show "nat (t div 1000000 mod 60) < 60" using r2 by (simp add: u_def)
  show "nat (t mod 1000000) < 1000000" by simp
  have "((h * 60 + v mod 60) * 60 + u mod 60) * 1000000 + t mod 1000000 = t"
    using tt by simp
  then show "((int (nat (t div 3600000000)) * 60 + int (nat (t div 60000000 mod 60))) * 60
        + int (nat (t div 1000000 mod 60))) * 1000000 + int (nat (t mod 1000000)) = t"
    using h0 r1 r2 r3 by (simp add: e1 e2 u_def [symmetric])
qed

lemma time_of_day_bounds:
  assumes "valid_datetime d"
  shows "0 \<le> time_of_day d" "time_of_day d < DAY"
proof -
  have b: "int (hour d) \<le> 23" "int (minute d) \<le> 59" "int (second d) \<le> 59"
    "int (microsecond d) \<le> 999999"
    using assms by (simp_all add: valid_datetime_def)
  show "0 \<le> time_of_day d" by (simp add: time_of_day_def)
  show "time_of_day d < DAY" unfolding time_of_day_def DAY_def using b
    by (simp add: algebra_simps)
qed

lemma shift_date_correct:
  assumes vd: "valid_date y m d" and tb: "- DAY < t" "t < 2 * DAY"
    and sh: "shift_date (y, m, d) t = ((y1, m1, d1), t')"
    and yr: "1 \<le> y1" "y1 \<le> 9999"
  shows "valid_date y1 m1 d1" "0 \<le> t'" "t' < DAY"
    "ymd2ord y1 m1 d1 * DAY + t' = ymd2ord y m d * DAY + t"
proof -
  consider (neg) "t < 0" | (big) "\<not> t < 0" "DAY \<le> t" | (mid) "\<not> t < 0" "\<not> DAY \<le> t"
    by blast
  then have "valid_date y1 m1 d1 \<and> 0 \<le> t' \<and> t' < DAY
     \<and> ymd2ord y1 m1 d1 * DAY + t' = ymd2ord y m d * DAY + t"
  proof cases
    case neg
    then have p: "prev_day (y, m, d) = (y1, m1, d1)" and t': "t' = t + DAY"
      using sh by (simp_all add: shift_date_def)
    have o: "ymd2ord y1 m1 d1 = ymd2ord y m d - 1"
      by (rule ymd2ord_prev_day [OF vd p yr(1)])
    show ?thesis unfolding o t' using valid_prev_day [OF vd p yr(1)] neg tb
      by (simp add: left_diff_distrib)
  next
    case big
    then have p: "next_day (y, m, d) = (y1, m1, d1)" and t': "t' = t - DAY"
      using sh by (simp_all add: shift_date_def)
    have o: "ymd2ord y1 m1 d1 = ymd2ord y m d + 1"
      by (rule ymd2ord_next_day [OF vd p])
    show ?thesis unfolding o t' using valid_next_day [OF vd p yr(2)] big tb
      by (simp add: distrib_right)
  next
    case mid
    then have "(y, m, d) = (y1, m1, d1)" and t': "t' = t"
      using sh by (simp_all add: shift_date_def)
    then show ?thesis using vd mid by simp
  qed
  then show "valid_date y1 m1 d1" "0 \<le> t'" "t' < DAY"
    "ymd2ord y1 m1 d1 * DAY + t' = ymd2ord y m d * DAY + t"
    by simp_all
qed

lemma astimezone_utc_correct:
  assumes v: "valid_datetime d" and a: "astimezone_utc d = Inr d'"
  shows "valid_datetime d'" "tzinfo d' = Some 0" "utc_instant d' = utc_instant d"
proof -
  from a obtain off where off: "tzinfo d = Some off"
    by (cases "tzinfo d") (simp_all add: astimezone_utc_def)
  have offb: "- DAY < off" "off < DAY"
    using v off by (simp_all add: valid_datetime_def valid_offset_def)
  have vd: "valid_date (year d) (month d) (day d)"
    using v by (simp add: valid_datetime_def)
  define t where "t = time_of_day d - off"
  obtain y1 m1 d1 t' where sh: "shift_date (year d, month d, day d) t = ((y1, m1, d1), t')"
    by (metis prod.exhaust)
  have tb: "- DAY < t" "t < 2 * DAY"
    using time_of_day_bounds [OF v] offb by (simp_all add: t_def)
  have unf: "astimezone_utc d =
     (if y1 < 1 \<or> 9999 < y1 then Inl OverflowError
      else Inr \<lparr>year = y1, month = m1, day = d1,
                      hour = nat (t' div 3600000000),
                      minute = nat (t' div 60000000 mod 60),
                      second = nat (t' div 1000000 mod 60),
                      microsecond = nat (t' mod 1000000),
                      tzinfo = Some 0\<rparr>)"
    using sh unfolding astimezone_utc_def off t_def by simp
  have yr: "1 \<le> y1" "y1 \<le> 9999"
    using a unfolding unf by (simp_all split: if_splits)
  have d': "d' = \<lparr>year = y1, month = m1, day = d1,
                      hour = nat (t' div 3600000000),
                      minute = nat (t' div 60000000 mod 60),
                      second = nat (t' div 1000000 mod 60),
                      microsecond = nat (t' mod 1000000),
                      tzinfo = Some 0\<rparr>"
    using a unfolding unf by (simp split: if_splits)
  note sd = shift_date_correct [OF vd tb sh yr]
  note tf = time_fields [OF sd(2,3)]
  have sel: "year d' = y1" "month d' = m1" "day d' = d1"
    "hour d' = nat (t' div 3600000000)" "minute d' = nat (t' div 60000000 mod 60)"
    "second d' = nat (t' div 1000000 mod 60)" "microsecond d' = nat (t' mod 1000000)"
    "tzinfo d' = Some 0"
    unfolding d' by (simp_all only: datetime.select_convs)
  have vo: "valid_offset (Some 0)" by (simp add: valid_offset_def DAY_def)
  show "valid_datetime d'"
    unfolding valid_datetime_def sel by (intro conjI sd(1) tf(1-4) vo)
  show "tzinfo d' = Some 0" by (rule sel(8))
  have "time_of_day d' = t'"
    unfolding time_of_day_def sel by (rule tf(5))
  then have "utc_instant d' = ymd2ord y1 m1 d1 * DAY + t'"
    unfolding utc_instant_def sel by simp
  also have "\<dots> = utc_instant d"
    unfolding sd(4) utc_instant_def off t_def by simp
  finally show "utc_instant d' = utc_instant d" .
qed

lemma digit_char_val: "k < 10 \<Longrightarrow> digit_val (digit_char k) = Some k"
proof -
  assume "k < 10"
  then consider "k = 0" | "k = 1" | "k = 2" | "k = 3" | "k = 4" | "k = 5" | "k = 6"
    | "k = 7" | "k = 8" | "k = 9" by atomize_elim arith
  then show ?thesis
    by cases (simp_all add: digit_char_def digit_val_def)
qed

lemma digit_not_special:
  assumes "digit_val c = Some v"
  shows "\<not> is_sign c" "c \<noteq> CHR '':''" "c \<noteq> CHR ''.''" "c \<noteq> CHR ''-''" "c \<noteq> CHR ''+''"
  using assms by (auto simp add: digit_val_def is_sign_def split: if_splits)

lemma digits_acc_append:
  "digits_acc a (xs @ ys) = (case digits_acc a xs of None \<Rightarrow> None | Some b \<Rightarrow> digits_acc b ys)"
  by (induction xs arbitrary: a) (auto split: option.splits)

lemma digits_acc_zeros: "digits_acc 0 (replicate k CHR ''0'') = Some 0"
  by (induction k) (simp_all add: digit_val_def)

lemma digits_acc_zpad: "digits_acc 0 (zpad w n) = Some n"
proof (induction w n rule: zpad.induct)
  case (1 w n)
  show ?case
  proof (cases "n < 10")
    case True
    then show ?thesis
      by (subst zpad.simps) (simp add: digits_acc_append digits_acc_zeros digit_char_val)
  next
    case False
    have "n mod 10 < 10" by simp
    then have d: "digit_val (digit_char (n mod 10)) = Some (n mod 10)" by (rule digit_char_val)
    show ?thesis
      using False "1.IH" [OF False] d
      by (subst zpad.simps) (simp add: digits_acc_append)
  qed
qed

lemma zpad_length: "n < 10 ^ w \<Longrightarrow> 0 < w \<Longrightarrow> length (zpad w n) = w"
proof (induction w n rule: zpad.induct)
  case (1 w n)
  show ?case
  proof (cases "n < 10")
    case True
    then show ?thesis using "1.prems" by (subst zpad.simps) simp
  next
    case False
    obtain v where w: "w = Suc v" using "1.prems"(2) by (cases w) auto
    have v0: "0 < v" using False "1.prems"(1) w by (cases v) auto
    have "n div 10 < 10 ^ v" using "1.prems"(1) w
      by (simp add: less_mult_imp_div_less mult.commute)
    from "1.IH" [OF False] this v0 w have "length (zpad v (n div 10)) = v" by simp
    then show ?thesis using False w by (subst zpad.simps) simp
  qed
qed

lemma zpad_digits: "c \<in> set (zpad w n) \<Longrightarrow> \<exists>v. digit_val c = Some v"
proof (induction w n rule: zpad.induct)
  case (1 w n)
  show ?case
  proof (cases "n < 10")
    case True
    have z: "digit_val (CHR ''0'') = Some 0" by (simp add: digit_val_def)
    from "1.prems" True have "c = CHR ''0'' \<or> c = digit_char n"
      by (subst (asm) zpad.simps) (auto split: if_splits)
    then show ?thesis using z digit_char_val [OF True] by auto
  next
    case False
    have "n mod 10 < 10" by simp
    then have d: "digit_val (digit_char (n mod 10)) = Some (n mod 10)" by (rule digit_char_val)
    from "1.prems" False have "c \<in> set (zpad (w - 1) (n div 10)) \<or> c = digit_char (n mod 10)"
      by (subst (asm) zpad.simps) auto
    then show ?thesis using "1.IH" [OF False] d by auto
  qed
qed

lemma parse_digits_zpad: "n < 10 ^ w \<Longrightarrow> 0 < w \<Longrightarrow> parse_digits w (zpad w n) = Some n"
  by (simp add: parse_digits_def zpad_length digits_acc_zpad)

lemma list2: "length xs = 2 \<Longrightarrow> \<exists>a b. xs = [a, b]"
  by (cases xs; cases "tl xs") auto

lemma list4: "length xs = 4 \<Longrightarrow> \<exists>a b c d. xs = [a, b, c, d]"
proof -
  assume l: "length xs = 4"
  then have "length (take 2 xs) = 2" "length (drop 2 xs) = 2" by simp_all
  then obtain a b c d where "take 2 xs = [a, b]" "drop 2 xs = [c, d]"
    using list2 by blast
  then have "xs = [a, b, c, d]" by (metis append_Cons append_Nil append_take_drop_id)
  then show ?thesis by blast
qed

lemma list6: "length xs = 6 \<Longrightarrow> \<exists>a b c d e f. xs = [a, b, c, d, e, f]"
proof -
  assume l: "length xs = 6"
  then have "length (take 4 xs) = 4" "length (drop 4 xs) = 2" by simp_all
  then obtain a b c d e f where "take 4 xs = [a, b, c, d]" "drop 4 xs = [e, f]"
    using list2 list4 by blast
  then have "xs = [a, b, c, d, e, f]" by (metis append_Cons append_Nil append_take_drop_id)
  then show ?thesis by blast
qed

lemma parse_tz_utc: "parse_tz ''+00:00'' = Some (Some 0)"
  by (simp add: parse_tz_def parse_hh_mm_ss_ff_def parse_digits_def digit_val_def)

lemma make_datetime_self:
  assumes "valid_datetime d"
  shows "make_datetime (year d) (month d) (day d) (hour d) (minute d) (second d)
           (microsecond d) (tzinfo d) = Inr d"
proof -
  have e: "\<lparr>year = year d, month = month d, day = day d, hour = hour d, minute = minute d,
         second = second d, microsecond = microsecond d, tzinfo = tzinfo d\<rparr> = d"
    by simp
  show ?thesis unfolding make_datetime_def Let_def e using assms by simp
qed

text \<open>The shape of \<open>isoformat\<close> for a valid value, character by character.\<close>

lemma isoformat_shape:
  assumes v: "valid_datetime d"
  obtains dpart tpart where
    "isoformat d = dpart @ CHR ''T'' # tpart @ format_offset (tzinfo d)"
    "length dpart = 10"
    "parse_isoformat_date dpart = Some (year d, month d, day d)"
    "parse_hh_mm_ss_ff tpart = Some (hour d, minute d, second d, microsecond d)"
    "\<forall>c\<in>set tpart. \<not> is_sign c"
    "CHR ''+'' \<notin> set dpart" "CHR ''+'' \<notin> set tpart"
proof -
  have r: "year d < 10 ^ 4" "month d < 10 ^ 2" "day d < 10 ^ 2" "hour d < 10 ^ 2"
    "minute d < 10 ^ 2" "second d < 10 ^ 2" "microsecond d < 10 ^ 6"
    using v by (auto simp add: valid_datetime_def valid_date_def days_in_month_def
        split: if_splits)
  obtain y1 y2 y3 y4 where Y: "zpad 4 (year d) = [y1, y2, y3, y4]"
    using list4 [OF zpad_length [OF r(1)]] by auto
  obtain m1 m2 where M: "zpad 2 (month d) = [m1, m2]"
    using list2 [OF zpad_length [OF r(2)]] by auto
  obtain d1 d2 where D: "zpad 2 (day d) = [d1, d2]"
    using list2 [OF zpad_length [OF r(3)]] by auto
  obtain h1 h2 where H: "zpad 2 (hour d) = [h1, h2]"
    using list2 [OF zpad_length [OF r(4)]] by auto
  obtain i1 i2 where I: "zpad 2 (minute d) = [i1, i2]"
    using list2 [OF zpad_length [OF r(5)]] by auto
  obtain s1 s2 where S: "zpad 2 (second d) = [s1, s2]"
    using list2 [OF zpad_length [OF r(6)]] by auto
  obtain u1 u2 u3 u4 u5 u6 where U: "zpad 6 (microsecond d) = [u1, u2, u3, u4, u5, u6]"
    using list6 [OF zpad_length [OF r(7)]] by auto
  have pY: "parse_digits 4 [y1, y2, y3, y4] = Some (year d)"
    using parse_digits_zpad [OF r(1)] Y by simp
  have pM: "parse_digits 2 [m1, m2] = Some (month d)"
    using parse_digits_zpad [OF r(2)] M by simp
  have pD: "parse_digits 2 [d1, d2] = Some (day d)"
    using parse_digits_zpad [OF r(3)] D by simp
  have pH: "parse_digits 2 [h1, h2] = Some (hour d)"
    using parse_digits_zpad [OF r(4)] H by simp
  have pI: "parse_digits 2 [i1, i2] = Some (minute d)"
    using parse_digits_zpad [OF r(5)] I by simp
  have pS: "parse_digits 2 [s1, s2] = Some (second d)"
    using parse_digits_zpad [OF r(6)] S by simp
  have pU: "parse_digits 6 [u1, u2, u3, u4, u5, u6] = Some (microsecond d)"
    using parse_digits_zpad [OF r(7)] U by simp
  have dY: "\<forall>c\<in>set [y1, y2, y3, y4]. \<exists>v. digit_val c = Some v"
    using zpad_digits [of _ 4 "year d"] unfolding Y by blast
  have dM: "\<forall>c\<in>set [m1, m2]. \<exists>v. digit_val c = Some v"
    using zpad_digits [of _ 2 "month d"] unfolding M by blast
  have dD: "\<forall>c\<in>set [d1, d2]. \<exists>v. digit_val c = Some v"
    using zpad_digits [of _ 2 "day d"] unfolding D by blast
  have dH: "\<forall>c\<in>set [h1, h2]. \<exists>v. digit_val c = Some v"
    using zpad_digits [of _ 2 "hour d"] unfolding H by blast
  have dI: "\<forall>c\<in>set [i1, i2]. \<exists>v. digit_val c = Some v"
    using zpad_digits [of _ 2 "minute d"] unfolding I by blast
  have dS: "\<forall>c\<in>set [s1, s2]. \<exists>v. digit_val c = Some v"
    using zpad_digits [of _ 2 "second d"] unfolding S by blast
  have dU: "\<forall>c\<in>set [u1, u2, u3, u4, u5, u6]. \<exists>v. digit_val c = Some v"
    using zpad_digits [of _ 6 "microsecond d"] unfolding U by blast
  define dpart where "dpart = [y1, y2, y3, y4, CHR ''-'', m1, m2, CHR ''-'', d1, d2]"
  define frac where "frac = (if microsecond d \<noteq> 0 then [CHR ''.'', u1, u2, u3, u4, u5, u6] else [])"
  define tpart where "tpart = [h1, h2, CHR '':'', i1, i2, CHR '':'', s1, s2] @ frac"
  have iso: "isoformat d = dpart @ CHR ''T'' # tpart @ format_offset (tzinfo d)"
    by (simp add: isoformat_def Y M D H I S U dpart_def tpart_def frac_def)
  have len: "length dpart = 10" by (simp add: dpart_def)
  have date: "parse_isoformat_date dpart = Some (year d, month d, day d)"
    by (simp add: parse_isoformat_date_def dpart_def pY pM pD)
  have "y1 \<noteq> CHR ''+''" "y2 \<noteq> CHR ''+''" "y3 \<noteq> CHR ''+''" "y4 \<noteq> CHR ''+''"
    "m1 \<noteq> CHR ''+''" "m2 \<noteq> CHR ''+''" "d1 \<noteq> CHR ''+''" "d2 \<noteq> CHR ''+''"
    using dY dM dD digit_not_special(5) by auto
  then have plusd: "CHR ''+'' \<notin> set dpart" by (auto simp add: dpart_def)
  have nh: "\<not> is_sign h1" "\<not> is_sign h2" "\<not> is_sign i1" "\<not> is_sign i2"
    "\<not> is_sign s1" "\<not> is_sign s2"
    using dH dI dS digit_not_special(1) by auto
  have nu: "\<not> is_sign u1" "\<not> is_sign u2" "\<not> is_sign u3" "\<not> is_sign u4"
    "\<not> is_sign u5" "\<not> is_sign u6"
    using dU digit_not_special(1) by auto
  have nsign: "\<forall>c\<in>set tpart. \<not> is_sign c"
    using nh nu by (auto simp add: tpart_def frac_def is_sign_def)
  then have plust: "CHR ''+'' \<notin> set tpart" by (auto simp add: is_sign_def)
  have time: "parse_hh_mm_ss_ff tpart = Some (hour d, minute d, second d, microsecond d)"
    by (simp add: parse_hh_mm_ss_ff_def parse_fraction_def tpart_def frac_def pH pI pS pU)
  from iso len date time nsign plusd plust show ?thesis by (rule that)
qed

lemma zpad_2_0: "zpad 2 0 = ''00''"
  by (subst zpad.simps) (simp add: digit_char_def)

lemma format_offset_utc: "format_offset (Some 0) = ''+00:00''"
  by (simp add: format_offset_def zpad_2_0)

lemma fromisoformat_isoformat_utc:
  assumes v: "valid_datetime d" and tz: "tzinfo d = Some 0"
  shows "fromisoformat (isoformat d) = Inr d"
proof (rule isoformat_shape [OF v])
  fix dpart tpart
  assume iso: "isoformat d = dpart @ CHR ''T'' # tpart @ format_offset (tzinfo d)"
    and len: "length dpart = 10"
    and date: "parse_isoformat_date dpart = Some (year d, month d, day d)"
    and time: "parse_hh_mm_ss_ff tpart = Some (hour d, minute d, second d, microsecond d)"
    and nsign: "\<forall>c\<in>set tpart. \<not> is_sign c"
  have iso': "isoformat d = dpart @ CHR ''T'' # tpart @ ''+00:00''"
    unfolding iso tz format_offset_utc ..
  have tk: "take 10 (isoformat d) = dpart" unfolding iso' using len by simp
  have dr: "drop 11 (isoformat d) = tpart @ ''+00:00''" unfolding iso' using len by simp
  have ln: "length (isoformat d) \<noteq> 10" unfolding iso' using len by simp
  have s: "is_sign CHR ''+''" by (simp add: is_sign_def)
  have tw: "takeWhile (\<lambda>c. \<not> is_sign c) (tpart @ ''+00:00'') = tpart"
    using nsign s by (simp add: takeWhile_append2)
  have dw: "dropWhile (\<lambda>c. \<not> is_sign c) (tpart @ ''+00:00'') = ''+00:00''"
    using nsign s by (simp add: dropWhile_append2)
  have pt: "parse_isoformat_time (tpart @ ''+00:00'') =
              Some (hour d, minute d, second d, microsecond d, tzinfo d)"
    unfolding parse_isoformat_time_def tw dw time parse_tz_utc by (simp add: tz)
  show ?thesis
    unfolding fromisoformat_def tk date dr pt using ln make_datetime_self [OF v] by simp
qed

lemma time_fields_inverse:
  assumes "valid_datetime d"
  shows "nat (time_of_day d div 3600000000) = hour d"
    "nat (time_of_day d div 60000000 mod 60) = minute d"
    "nat (time_of_day d div 1000000 mod 60) = second d"
    "nat (time_of_day d mod 1000000) = microsecond d"
proof -
  define t where "t = time_of_day d"
  define q where "q = (int (hour d) * 60 + int (minute d)) * 60 + int (second d)"
  define p where "p = int (hour d) * 60 + int (minute d)"
  have b: "int (minute d) < 60" "int (second d) < 60" "int (microsecond d) < 1000000"
    using assms by (simp_all add: valid_datetime_def)
  have e1: "t = 1000000 * q + int (microsecond d)"
    by (simp add: t_def q_def time_of_day_def)
  have e2: "q = 60 * p + int (second d)" by (simp add: q_def p_def)
  have e3: "p = 60 * int (hour d) + int (minute d)" by (simp add: p_def)
  have d1: "t div 1000000 = q" using int_div_pos_eq [OF e1] b by simp
  have m1: "t mod 1000000 = int (microsecond d)" using int_mod_pos_eq [OF e1] b by simp
  have d2: "q div 60 = p" using int_div_pos_eq [OF e2] b by simp
  have m2: "q mod 60 = int (second d)" using int_mod_pos_eq [OF e2] b by simp
  have d3: "p div 60 = int (hour d)" using int_div_pos_eq [OF e3] b by simp
  have m3: "p mod 60 = int (minute d)" using int_mod_pos_eq [OF e3] b by simp
  have c1: "t div 60000000 = p"
    using zdiv_zmult2_eq [of 60 t 1000000] d1 d2 by simp
  have c2: "t div 3600000000 = int (hour d)"
    using zdiv_zmult2_eq [of 60 t 60000000] c1 d3 by simp
  show "nat (time_of_day d div 3600000000) = hour d"
    unfolding t_def [symmetric] c2 by simp
  show "nat (time_of_day d div 60000000 mod 60) = minute d"
    unfolding t_def [symmetric] c1 m3 by simp
  show "nat (time_of_day d div 1000000 mod 60) = second d"
    unfolding t_def [symmetric] d1 m2 by simp
  show "nat (time_of_day d mod 1000000) = microsecond d"
    unfolding t_def [symmetric] m1 by simp
qed

lemma astimezone_utc_of_utc:
  assumes v: "valid_datetime d" and tz: "tzinfo d = Some 0"
  shows "astimezone_utc d = Inr d"
proof -
  have b: "\<not> time_of_day d < 0" "\<not> DAY \<le> time_of_day d"
    using time_of_day_bounds [OF v] by simp_all
  have sh: "shift_date (year d, month d, day d) (time_of_day d - 0) =
              ((year d, month d, day d), time_of_day d)"
    using b by (simp add: shift_date_def)
  have y: "\<not> (year d < 1 \<or> 9999 < year d)"
    using v by (simp add: valid_datetime_def valid_date_def)
  have e: "\<lparr>year = year d, month = month d, day = day d, hour = hour d, minute = minute d,
         second = second d, microsecond = microsecond d, tzinfo = Some 0\<rparr> = d"
    using tz by simp
  show ?thesis
    unfolding astimezone_utc_def tz option.case sh prod.case time_fields_inverse [OF v] e
    using y by simp
qed

lemma make_datetime_valid: "make_datetime y m d hh mm ss us tz = Inr dt \<Longrightarrow> valid_datetime dt"
  by (auto simp add: make_datetime_def Let_def split: if_splits)

lemma fromisoformat_valid: "fromisoformat s = Inr d \<Longrightarrow> valid_datetime d"
  unfolding fromisoformat_def
  by (auto split: option.splits if_splits dest: make_datetime_valid)

lemma to_utc_correct:
  assumes v: "valid_datetime d" and a: "to_utc d = Inr d'"
  shows "valid_datetime d'" "tzinfo d' = Some 0" "utc_instant d' = utc_instant d"
proof -
  have "valid_datetime d' \<and> tzinfo d' = Some 0 \<and> utc_instant d' = utc_instant d"
  proof (cases "tzinfo d")
    case None
    then have d': "d' = d\<lparr>tzinfo := Some 0\<rparr>"
      using a by (simp add: to_utc_def replace_tzinfo_utc_def)
    show ?thesis unfolding d' using v None
      by (simp add: valid_datetime_def valid_offset_def DAY_def utc_instant_def time_of_day_def)
  next
    case (Some off)
    then have "astimezone_utc d = Inr d'" using a by (simp add: to_utc_def)
    from astimezone_utc_correct [OF v this] show ?thesis by simp
  qed
  then show "valid_datetime d'" "tzinfo d' = Some 0" "utc_instant d' = utc_instant d"
    by simp_all
qed

lemma to_utc_of_utc:
  assumes "valid_datetime d" "tzinfo d = Some 0"
  shows "to_utc d = Inr d"
  using astimezone_utc_of_utc [OF assms] assms(2) by (simp add: to_utc_def)

lemma replace_from_suffix:
  "CHR ''+'' \<notin> set x \<Longrightarrow> replace_from ''+00:00'' ''Z'' (x @ ''+00:00'') = x @ ''Z''"
  by (induction x) auto

lemma format_expiry_utc:
  assumes v: "valid_datetime d" and tz: "tzinfo d = Some 0"
  obtains base where "isoformat d = base @ ''+00:00''" "format_expiry d = base @ ''Z''"
proof (rule isoformat_shape [OF v])
  fix dpart tpart
  assume iso: "isoformat d = dpart @ CHR ''T'' # tpart @ format_offset (tzinfo d)"
    and pd: "CHR ''+'' \<notin> set dpart" and pt: "CHR ''+'' \<notin> set tpart"
  have iso': "isoformat d = (dpart @ CHR ''T'' # tpart) @ ''+00:00''"
    unfolding iso tz format_offset_utc by simp
  have np: "CHR ''+'' \<notin> set (dpart @ CHR ''T'' # tpart)" using pd pt by simp
  have "format_expiry d = (dpart @ CHR ''T'' # tpart) @ ''Z''"
    unfolding format_expiry_def str_replace_def iso'
    using replace_from_suffix [OF np] by simp
  with iso' show ?thesis by (rule that)
qed

lemma zulu_to_offset_Z: "zulu_to_offset (base @ ''Z'') = base @ ''+00:00''"
  by (simp add: zulu_to_offset_def ends_with_def)

lemma parse_expiry_format_expiry:
  assumes v: "valid_datetime d" and tz: "tzinfo d = Some 0"
  shows "parse_expiry (format_expiry d) = Inr d" "ends_with ''Z'' (format_expiry d)"
proof -
  have "parse_expiry (format_expiry d) = Inr d \<and> ends_with ''Z'' (format_expiry d)"
  proof (rule format_expiry_utc [OF v tz])
    fix base
    assume iso: "isoformat d = base @ ''+00:00''" and f: "format_expiry d = base @ ''Z''"
    have z: "zulu_to_offset (format_expiry d) = isoformat d"
      unfolding f iso by (rule zulu_to_offset_Z)
    have "parse_expiry (format_expiry d) = Inr d"
      unfolding parse_expiry_def z fromisoformat_isoformat_utc [OF v tz]
      using to_utc_of_utc [OF v tz] by simp
    moreover have "ends_with ''Z'' (format_expiry d)"
      unfolding f by (simp add: ends_with_def)
    ultimately show ?thesis by simp
  qed
  then show "parse_expiry (format_expiry d) = Inr d" "ends_with ''Z'' (format_expiry d)"
    by simp_all
qed

lemmas eval_defs = parse_expiry_def zulu_to_offset_def ends_with_def fromisoformat_def
  parse_isoformat_date_def parse_digits_def digit_val_def parse_isoformat_time_def
  parse_hh_mm_ss_ff_def parse_fraction_def is_sign_def parse_tz_def make_datetime_def
  valid_datetime_def valid_date_def days_in_month_def is_leap_def valid_offset_def DAY_def
  to_utc_def replace_tzinfo_utc_def astimezone_utc_def shift_date_def time_of_day_def
  next_day_def prev_day_def

lemma fromisoformat_empty: "fromisoformat [] = Inl (ValueError ''Invalid isoformat string'')"
  by (simp add: fromisoformat_def parse_isoformat_date_def)

lemma zulu_to_offset_empty: "zulu_to_offset [] = []"
  by (simp add: zulu_to_offset_def ends_with_def)

lemma parse_expiry_nonempty: "parse_expiry s = Inr d \<Longrightarrow> s \<noteq> []"
  by (auto simp add: parse_expiry_def zulu_to_offset_empty fromisoformat_empty)

lemma fix_token_timezone_expiry:
  assumes "map_of kvs ''expiry'' = Some (JStr s)" "parse_expiry s = Inr d"
  shows "fix_token_timezone True (Parsed (JObject kvs)) =
           (Some (JObject (dict_set ''expiry'' (JStr (format_expiry d)) kvs)), True)"
  using assms parse_expiry_nonempty [OF assms(2)]
  by (simp add: fix_token_timezone_def)

lemma map_of_dict_set: "map_of (dict_set key v kvs) key = Some v"
proof (cases "map_of kvs key")
  case None
  then show ?thesis by (simp add: dict_set_def map_add_def)
next
  case (Some w)
  have "map_of (map (\<lambda>(k, w). if k = key then (k, v) else (k, w)) kvs) key = Some v"
    using Some by (induction kvs) (auto split: if_splits)
  then show ?thesis using Some by (simp add: dict_set_def)
qed

text \<open>
  Claim C8. Whenever the stored expiry string is read successfully, the value obtained
  is in UTC and denotes the instant the string denotes under the rule (a trailing \<open>Z\<close>
  is UTC, no offset is read as UTC, any other offset is converted); writing it back
  yields a string ending in \<open>Z\<close>, and reading that string again yields the same UTC
  value. So the instant survives a save and reload whichever form the stored string
  had. \<open>fix_token_timezone\<close> stores exactly this string as the new expiry.
\<close>

theorem expiry_round_trip:
  assumes "parse_expiry s = Inr d"
  shows "tzinfo d = Some 0
     \<and> ends_with ''Z'' (format_expiry d)
     \<and> parse_expiry (format_expiry d) = Inr d
     \<and> (\<forall>d0. fromisoformat (zulu_to_offset s) = Inr d0 \<longrightarrow> utc_instant d = utc_instant d0)
     \<and> (\<forall>kvs. map_of kvs ''expiry'' = Some (JStr s) \<longrightarrow>
           (\<exists>kvs'. fix_token_timezone True (Parsed (JObject kvs)) = (Some (JObject kvs'), True)
              \<and> map_of kvs' ''expiry'' = Some (JStr (format_expiry d))))"
proof -
  from assms obtain d0 where p: "fromisoformat (zulu_to_offset s) = Inr d0"
    and u: "to_utc d0 = Inr d"
    by (cases "fromisoformat (zulu_to_offset s)") (simp_all add: parse_expiry_def)
  have v0: "valid_datetime d0" using p by (rule fromisoformat_valid)
  note n = to_utc_correct [OF v0 u]
  note r = parse_expiry_format_expiry [OF n(1) n(2)]
  have f: "\<forall>kvs. map_of kvs ''expiry'' = Some (JStr s) \<longrightarrow>
           (\<exists>kvs'. fix_token_timezone True (Parsed (JObject kvs)) = (Some (JObject kvs'), True)
              \<and> map_of kvs' ''expiry'' = Some (JStr (format_expiry d)))"
    using fix_token_timezone_expiry [OF _ assms] map_of_dict_set by blast
  show ?thesis using n(2) n(3) r p f by simp
qed

theorem expiry_round_trip_witness:
  "parse_expiry ''2025-01-01T00:00:00Z'' =
     Inr \<lparr>year = 2025, month = 1, day = 1, hour = 0, minute = 0, second = 0,
          microsecond = 0, tzinfo = Some 0\<rparr>
   \<and> parse_expiry ''2025-01-01T00:00:00'' = parse_expiry ''2025-01-01T00:00:00Z''
   \<and> parse_expiry ''2025-01-01T05:30:00+05:30'' = parse_expiry ''2025-01-01T00:00:00Z''
   \<and> format_expiry \<lparr>year = 2025, month = 1, day = 1, hour = 0, minute = 0, second = 0,
          microsecond = 0, tzinfo = Some 0\<rparr> = ''2025-01-01T00:00:00Z''
   \<and> parse_expiry (format_expiry \<lparr>year = 2025, month = 1, day = 1, hour = 0, minute = 0,
          second = 0, microsecond = 0, tzinfo = Some 0\<rparr>) =
     Inr \<lparr>year = 2025, month = 1, day = 1, hour = 0, minute = 0, second = 0,
          microsecond = 0, tzinfo = Some 0\<rparr>"
proof -
  let ?d = "\<lparr>year = 2025, month = 1, day = 1, hour = 0, minute = 0, second = 0,
          microsecond = 0, tzinfo = Some 0\<rparr>"
  have e1: "parse_expiry ''2025-01-01T00:00:00Z'' = Inr ?d"
    by (simp add: eval_defs)
  have e2: "parse_expiry ''2025-01-01T00:00:00'' = Inr ?d"
    by (simp add: eval_defs)
  have e3: "parse_expiry ''2025-01-01T05:30:00+05:30'' = Inr ?d"
    by (simp add: eval_defs)
  have e4: "format_expiry ?d = ''2025-01-01T00:00:00Z''"
    by (simp add: format_expiry_def str_replace_def isoformat_def format_offset_utc
        zpad.simps digit_char_def)
  from expiry_round_trip [OF e1] have "parse_expiry (format_expiry ?d) = Inr ?d"
    by blast
  with e1 e2 e3 e4 show ?thesis by simp
qed

section \<open>Properties of the credential check and refresh\<close>

lemma load_expiry_utc:
  assumes "load_expiry kvs = Some d"
  shows "valid_datetime d" "tzinfo d = Some 0"
proof -
  from assms obtain s where p: "parse_expiry s = Inr d"
    by (auto simp add: load_expiry_def split: option.splits if_splits json.splits sum.splits)
  then obtain d0 where f: "fromisoformat (zulu_to_offset s) = Inr d0" and u: "to_utc d0 = Inr d"
    by (cases "fromisoformat (zulu_to_offset s)") (simp_all add: parse_expiry_def)
  have v0: "valid_datetime d0" using f by (rule fromisoformat_valid)
  show "valid_datetime d" "tzinfo d = Some 0"
    using to_utc_correct [OF v0 u] by simp_all
qed

lemma expiry_load_credentials:
  "load_credentials (JObject kvs) = Inr creds \<Longrightarrow> expiry creds = load_expiry kvs"
  by (auto simp add: load_credentials_def)

lemma token_load_credentials:
  "load_credentials (JObject kvs) = Inr creds \<Longrightarrow> token creds = dict_get kvs ''token'' JNull"
  by (auto simp add: load_credentials_def)

lemma creds_valid_loaded:
  assumes "load_credentials (JObject kvs) = Inr creds"
  shows "creds_valid now creds =
     Inr (dict_get kvs ''token'' JNull \<noteq> JNull
          \<and> (case load_expiry kvs of None \<Rightarrow> True | Some d \<Rightarrow> now < utc_instant d))"
proof (cases "load_expiry kvs")
  case None
  then show ?thesis
    using expiry_load_credentials [OF assms] token_load_credentials [OF assms]
    by (simp add: creds_valid_def)
next
  case (Some d)
  then show ?thesis
    using expiry_load_credentials [OF assms] token_load_credentials [OF assms]
      load_expiry_utc(2) [OF Some]
    by (simp add: creds_valid_def)
qed

lemma to_utc_naive_or_utc:
  assumes v: "valid_datetime d0" and tz: "tzinfo d0 = None \<or> tzinfo d0 = Some 0"
  obtains d where "to_utc d0 = Inr d" "utc_instant d = utc_instant d0"
proof (cases "tzinfo d0")
  case None
  then have u: "to_utc d0 = Inr (replace_tzinfo_utc d0)" by (simp add: to_utc_def)
  from to_utc_correct(3) [OF v u] u show ?thesis by (rule that [rotated])
next
  case (Some off)
  then have z: "tzinfo d0 = Some 0" using tz by simp
  from to_utc_of_utc [OF v z] show ?thesis by (rule that) simp
qed

lemma refresh_after_invalid:
  assumes "token_file env = Parsed token_data"
    and "load_credentials token_data = Inr creds"
    and "check_valid (valid env creds) = Inr False"
  shows "\<exists>evs. fst (authenticate_gmail env) = LoadedToken # RefreshCalled # evs"
  using assms by (simp add: authenticate_gmail_def split: sum.splits)

text \<open>
  Claim C5. With the library's validity property as the specification describes it:
  for every loaded token dict, whatever it holds as token and as expiry, the validity
  check of \<open>authenticate_gmail\<close> comes out as a boolean and raises nothing; when the
  stored expiry is a string that reads as a naive or a UTC (\<open>Z\<close>) time, the credential
  is judged valid exactly when a token is present and that time, read as UTC, is
  strictly after the clock, so a past expiry is invalid and a future one valid; and
  whenever the check comes out false, which includes the library raising
  \<open>TypeError\<close> or \<open>AttributeError\<close>, the call goes on to the refresh exchange.
\<close>

theorem validity_check_never_throws_and_forces_refresh:
  "(\<exists>creds b. load_credentials (JObject kvs) = Inr creds
       \<and> check_valid (creds_valid now creds) = Inr b)
   \<and> (\<forall>s d0. map_of kvs ''expiry'' = Some (JStr s)
         \<and> fromisoformat (zulu_to_offset s) = Inr d0
         \<and> (tzinfo d0 = None \<or> tzinfo d0 = Some 0) \<longrightarrow>
         (\<exists>creds. load_credentials (JObject kvs) = Inr creds
            \<and> check_valid (creds_valid now creds) =
                Inr (dict_get kvs ''token'' JNull \<noteq> JNull \<and> now < utc_instant d0)))
   \<and> check_valid (Inl TypeError) = Inr False
   \<and> check_valid (Inl AttributeError) = Inr False
   \<and> (\<forall>env token_data creds. token_file env = Parsed token_data
         \<and> load_credentials token_data = Inr creds
         \<and> check_valid (valid env creds) = Inr False \<longrightarrow>
         (\<exists>evs. fst (authenticate_gmail env) = LoadedToken # RefreshCalled # evs))"
proof (intro conjI allI impI)
  obtain creds where l: "load_credentials (JObject kvs) = Inr creds"
    by (simp add: load_credentials_def)
  show "\<exists>creds b. load_credentials (JObject kvs) = Inr creds
       \<and> check_valid (creds_valid now creds) = Inr b"
    using l creds_valid_loaded [OF l, of now] by auto
next
  fix s d0
  assume a: "map_of kvs ''expiry'' = Some (JStr s)
         \<and> fromisoformat (zulu_to_offset s) = Inr d0
         \<and> (tzinfo d0 = None \<or> tzinfo d0 = Some 0)"
  obtain creds where l: "load_credentials (JObject kvs) = Inr creds"
    by (simp add: load_credentials_def)
  from a have f: "fromisoformat (zulu_to_offset s) = Inr d0" by simp
  have v0: "valid_datetime d0" using f by (rule fromisoformat_valid)
  have ne: "s \<noteq> []"
    using f fromisoformat_empty zulu_to_offset_empty by auto
  from a have tz: "tzinfo d0 = None \<or> tzinfo d0 = Some 0" by simp
  obtain d where u: "to_utc d0 = Inr d" and i: "utc_instant d = utc_instant d0"
    by (rule to_utc_naive_or_utc [OF v0 tz])
  have "parse_expiry s = Inr d" using f u by (simp add: parse_expiry_def)
  then have "load_expiry kvs = Some d" using a ne by (simp add: load_expiry_def)
  then show "\<exists>creds. load_credentials (JObject kvs) = Inr creds
            \<and> check_valid (creds_valid now creds) =
                Inr (dict_get kvs ''token'' JNull \<noteq> JNull \<and> now < utc_instant d0)"
    using l creds_valid_loaded [OF l, of now] i by auto
next
  show "check_valid (Inl TypeError) = Inr False" by simp
  show "check_valid (Inl AttributeError) = Inr False" by simp
next
  fix env :: auth_env and token_data and creds :: credentials
  assume "token_file env = Parsed token_data
         \<and> load_credentials token_data = Inr creds
         \<and> check_valid (valid env creds) = Inr False"
  then show "\<exists>evs. fst (authenticate_gmail env) = LoadedToken # RefreshCalled # evs"
    using refresh_after_invalid by blast
qed

theorem validity_check_never_throws_and_forces_refresh_witness:
  "(\<exists>creds. load_credentials (JObject [(''token'', JStr ''ya29.a0'') ,
        (''expiry'', JStr ''2025-01-01T00:00:00Z'')]) = Inr creds
      \<and> check_valid (creds_valid 63871372800000001 creds) = Inr False
      \<and> check_valid (creds_valid 63871372799999999 creds) = Inr True
      \<and> (\<exists>evs. fst (authenticate_gmail
             \<lparr>token_file = Parsed (JObject [(''token'', JStr ''ya29.a0''),
                  (''expiry'', JStr ''2025-01-01T00:00:00Z'')]),
              valid = creds_valid 63871372800000001,
              refresh = (\<lambda>c. Inl RefreshError), write_ok = True, build_ok = True\<rparr>)
            = LoadedToken # RefreshCalled # evs))"
proof -
  let ?kvs = "[(''token'', JStr ''ya29.a0''), (''expiry'', JStr ''2025-01-01T00:00:00Z'')]"
  let ?d0 = "\<lparr>year = 2025, month = 1, day = 1, hour = 0, minute = 0, second = 0,
          microsecond = 0, tzinfo = Some 0\<rparr>"
  let ?env = "\<lparr>token_file = Parsed (JObject ?kvs), valid = creds_valid 63871372800000001,
              refresh = (\<lambda>c. Inl RefreshError), write_ok = True, build_ok = True\<rparr>"
  have m: "map_of ?kvs ''expiry'' = Some (JStr ''2025-01-01T00:00:00Z'')" by simp
  have f: "fromisoformat (zulu_to_offset ''2025-01-01T00:00:00Z'') = Inr ?d0"
    by (simp add: eval_defs)
  have tz: "tzinfo ?d0 = None \<or> tzinfo ?d0 = Some 0" by simp
  have i: "utc_instant ?d0 = 63871372800000000"
    by (simp add: utc_instant_def ymd2ord_def days_before_year_def days_before_month_def
        time_of_day_def DAY_def)
  have t: "dict_get ?kvs ''token'' JNull \<noteq> JNull" by (simp add: dict_get_def)
  obtain creds where l: "load_credentials (JObject ?kvs) = Inr creds"
    by (simp add: load_credentials_def)
  note T1 = validity_check_never_throws_and_forces_refresh [of ?kvs 63871372800000001]
  note T0 = validity_check_never_throws_and_forces_refresh [of ?kvs 63871372799999999]
  from T1 m f tz have "\<exists>c. load_credentials (JObject ?kvs) = Inr c
      \<and> check_valid (creds_valid 63871372800000001 c) =
          Inr (dict_get ?kvs ''token'' JNull \<noteq> JNull \<and> 63871372800000001 < utc_instant ?d0)"
    by blast
  then have c1: "check_valid (creds_valid 63871372800000001 creds) = Inr False"
    using l t i by auto
  from T0 m f tz have "\<exists>c. load_credentials (JObject ?kvs) = Inr c
      \<and> check_valid (creds_valid 63871372799999999 c) =
          Inr (dict_get ?kvs ''token'' JNull \<noteq> JNull \<and> 63871372799999999 < utc_instant ?d0)"
    by blast
  then have c0: "check_valid (creds_valid 63871372799999999 creds) = Inr True"
    using l t i by auto
  have "token_file ?env = Parsed (JObject ?kvs) \<and> load_credentials (JObject ?kvs) = Inr creds
      \<and> check_valid (valid ?env creds) = Inr False"
    using l c1 by simp
  with T1 have "\<exists>evs. fst (authenticate_gmail ?env) = LoadedToken # RefreshCalled # evs"
    by blast
  with l c1 c0 show ?thesis by blast
qed

lemma saved_expiry:
  assumes v: "valid_datetime dt"
  obtains (overflow) e where "to_utc dt = Inl e"
  | (ok) u where "to_utc dt = Inr u" "tzinfo u = Some 0" "utc_instant u = utc_instant dt"
      "ends_with ''Z'' (format_expiry u)" "parse_expiry (format_expiry u) = Inr u"
proof (cases "to_utc dt")
  case (Inl e)
  then show ?thesis by (rule overflow)
next
  case (Inr u)
  note n = to_utc_correct [OF v Inr]
  note r = parse_expiry_format_expiry [OF n(1) n(2)]
  from Inr n(2) n(3) r(2) r(1) show ?thesis by (rule ok)
qed

lemma no_service_unless_true:
  "\<not> snd (snd (authenticate_gmail env)) \<Longrightarrow>
     fst (snd (authenticate_gmail env)) = None
     \<and> (\<forall>c. BuiltService c \<notin> set (fst (authenticate_gmail env)))"
  by (auto simp add: authenticate_gmail_def split: config_file.splits sum.splits if_splits)

text \<open>
  Claim C7. In a call of \<open>authenticate_gmail\<close> that judges the loaded credential
  invalid and whose refresh exchange succeeds, the service is built only after the
  token file has been written: when the call returns true its events are exactly
  load, refresh, write, build, in this order, the service is built with the refreshed
  credential, and the dict written holds that credential's token, refresh token,
  token URI, client id, client secret and scopes and, for the expiry, \<open>None\<close> if the
  credential has none, else the expiry converted to UTC and written with the \<open>Z\<close>
  suffix, a string that denotes the same instant and reads back to the same UTC
  value. When the call returns false no service was built.
\<close>

theorem refreshed_credential_written_before_service:
  assumes tfile: "token_file env = Parsed token_data"
    and loaded: "load_credentials token_data = Inr creds"
    and invalid: "check_valid (valid env creds) = Inr False"
    and refreshed: "refresh env creds = Inr creds'"
    and wf: "\<forall>dt. expiry creds' = Some dt \<longrightarrow> valid_datetime dt"
  shows "(snd (snd (authenticate_gmail env)) \<longrightarrow>
          (\<exists>x. authenticate_gmail env =
                 ([LoadedToken, RefreshCalled,
                   WroteToken (JObject
                     [(''token'', token creds'),
                      (''refresh_token'', refresh_token creds'),
                      (''token_uri'', token_uri creds'),
                      (''client_id'', client_id creds'),
                      (''client_secret'', client_secret creds'),
                      (''scopes'', scopes creds'),
                      (''universe_domain'', JStr ''googleapis.com''),
                      (''account'', JStr []),
                      (''expiry'', x)]),
                   BuiltService creds'], Some creds', True)
             \<and> (expiry creds' = None \<longrightarrow> x = JNull)
             \<and> (\<forall>dt. expiry creds' = Some dt \<longrightarrow>
                   (\<exists>u. to_utc dt = Inr u \<and> x = JStr (format_expiry u)
                      \<and> tzinfo u = Some 0 \<and> utc_instant u = utc_instant dt
                      \<and> ends_with ''Z'' (format_expiry u)
                      \<and> parse_expiry (format_expiry u) = Inr u))))
     \<and> (\<not> snd (snd (authenticate_gmail env)) \<longrightarrow>
          fst (snd (authenticate_gmail env)) = None
          \<and> (\<forall>c. BuiltService c \<notin> set (fst (authenticate_gmail env))))"
proof (rule conjI; rule impI)
  assume ret: "snd (snd (authenticate_gmail env))"
  have unf: "authenticate_gmail env =
     (case saved_token_data creds' of
        Inl e \<Rightarrow> ([LoadedToken, RefreshCalled], None, False)
      | Inr token_data' \<Rightarrow>
          if \<not> write_ok env then ([LoadedToken, RefreshCalled], None, False)
          else if \<not> build_ok env then
            ([LoadedToken, RefreshCalled, WroteToken token_data'], None, False)
          else ([LoadedToken, RefreshCalled, WroteToken token_data', BuiltService creds'],
                Some creds', True))"
    by (simp add: authenticate_gmail_def tfile loaded invalid refreshed)
  from ret obtain td where td: "saved_token_data creds' = Inr td"
    and res: "authenticate_gmail env =
        ([LoadedToken, RefreshCalled, WroteToken td, BuiltService creds'], Some creds', True)"
    unfolding unf by (cases "saved_token_data creds'") (auto split: if_splits)
  show "\<exists>x. authenticate_gmail env =
                 ([LoadedToken, RefreshCalled,
                   WroteToken (JObject
                     [(''token'', token creds'),
                      (''refresh_token'', refresh_token creds'),
                      (''token_uri'', token_uri creds'),
                      (''client_id'', client_id creds'),
                      (''client_secret'', client_secret creds'),
                      (''scopes'', scopes creds'),
                      (''universe_domain'', JStr ''googleapis.com''),
                      (''account'', JStr []),
                      (''expiry'', x)]),
                   BuiltService creds'], Some creds', True)
             \<and> (expiry creds' = None \<longrightarrow> x = JNull)
             \<and> (\<forall>dt. expiry creds' = Some dt \<longrightarrow>
                   (\<exists>u. to_utc dt = Inr u \<and> x = JStr (format_expiry u)
                      \<and> tzinfo u = Some 0 \<and> utc_instant u = utc_instant dt
                      \<and> ends_with ''Z'' (format_expiry u)
                      \<and> parse_expiry (format_expiry u) = Inr u))"
  proof (cases "expiry creds'")
    case None
    then have "td = JObject
                     [(''token'', token creds'),
                      (''refresh_token'', refresh_token creds'),
                      (''token_uri'', token_uri creds'),
                      (''client_id'', client_id creds'),
                      (''client_secret'', client_secret creds'),
                      (''scopes'', scopes creds'),
                      (''universe_domain'', JStr ''googleapis.com''),
                      (''account'', JStr []),
                      (''expiry'', JNull)]"
      using td by (simp add: saved_token_data_def)
    then show ?thesis using res None by simp
  next
    case (Some dt)
    then have v: "valid_datetime dt" using wf by simp
    from v show ?thesis
    proof (cases rule: saved_expiry)
      case (overflow e)
      then show ?thesis using td Some by (simp add: saved_token_data_def)
    next
      case (ok u)
      then have "td = JObject
                     [(''token'', token creds'),
                      (''refresh_token'', refresh_token creds'),
                      (''token_uri'', token_uri creds'),
                      (''client_id'', client_id creds'),
                      (''client_secret'', client_secret creds'),
                      (''scopes'', scopes creds'),
                      (''universe_domain'', JStr ''googleapis.com''),
                      (''account'', JStr []),
                      (''expiry'', JStr (format_expiry u))]"
        using td Some by (simp add: saved_token_data_def)
      then show ?thesis using res Some ok by simp
    qed
  qed
next
  assume "\<not> snd (snd (authenticate_gmail env))"
  then show "fst (snd (authenticate_gmail env)) = None
          \<and> (\<forall>c. BuiltService c \<notin> set (fst (authenticate_gmail env)))"
    by (rule no_service_unless_true)
qed

theorem refreshed_credential_written_before_service_witness:
  "authenticate_gmail
     \<lparr>token_file = Parsed (JObject [(''token'', JStr ''ya29.a0''),
          (''refresh_token'', JStr ''1//0g''), (''expiry'', JStr ''2025-01-01T00:00:00Z'')]),
      valid = creds_valid 63871372800000001,
      refresh = (\<lambda>c. Inr (c\<lparr>token := JStr ''ya29.b1'',
          expiry := Some \<lparr>year = 2025, month = 1, day = 1, hour = 1, minute = 0, second = 0,
                           microsecond = 0, tzinfo = None\<rparr>\<rparr>)),
      write_ok = True, build_ok = True\<rparr> =
   ([LoadedToken, RefreshCalled,
     WroteToken (JObject
       [(''token'', JStr ''ya29.b1''),
        (''refresh_token'', JStr ''1//0g''),
        (''token_uri'', JNull),
        (''client_id'', JNull),
        (''client_secret'', JNull),
        (''scopes'', SCOPES),
        (''universe_domain'', JStr ''googleapis.com''),
        (''account'', JStr []),
        (''expiry'', JStr ''2025-01-01T01:00:00Z'')]),
     BuiltService
       \<lparr>token = JStr ''ya29.b1'', refresh_token = JStr ''1//0g'', token_uri = JNull,
          client_id = JNull, client_secret = JNull, scopes = SCOPES,
          expiry = Some \<lparr>year = 2025, month = 1, day = 1, hour = 1, minute = 0, second = 0,
                           microsecond = 0, tzinfo = None\<rparr>\<rparr>],
    Some \<lparr>token = JStr ''ya29.b1'', refresh_token = JStr ''1//0g'', token_uri = JNull,
          client_id = JNull, client_secret = JNull, scopes = SCOPES,
          expiry = Some \<lparr>year = 2025, month = 1, day = 1, hour = 1, minute = 0, second = 0,
                           microsecond = 0, tzinfo = None\<rparr>\<rparr>,
    True)"
proof -
  let ?kvs = "[(''token'', JStr ''ya29.a0''), (''refresh_token'', JStr ''1//0g''),
               (''expiry'', JStr ''2025-01-01T00:00:00Z'')]"
  let ?d = "\<lparr>year = 2025, month = 1, day = 1, hour = 0, minute = 0, second = 0,
          microsecond = 0, tzinfo = Some 0\<rparr>"
  let ?dt = "\<lparr>year = 2025, month = 1, day = 1, hour = 1, minute = 0, second = 0,
          microsecond = 0, tzinfo = None\<rparr>"
  let ?u = "\<lparr>year = 2025, month = 1, day = 1, hour = 1, minute = 0, second = 0,
          microsecond = 0, tzinfo = Some 0\<rparr>"
  let ?creds = "\<lparr>token = JStr ''ya29.a0'', refresh_token = JStr ''1//0g'', token_uri = JNull,
          client_id = JNull, client_secret = JNull, scopes = SCOPES, expiry = Some ?d\<rparr>"
  let ?creds' = "\<lparr>token = JStr ''ya29.b1'', refresh_token = JStr ''1//0g'', token_uri = JNull,
          client_id = JNull, client_secret = JNull, scopes = SCOPES, expiry = Some ?dt\<rparr>"
  let ?r = "\<lambda>c. Inr (c\<lparr>token := JStr ''ya29.b1'', expiry := Some ?dt\<rparr>)"
  let ?env = "\<lparr>token_file = Parsed (JObject ?kvs), valid = creds_valid 63871372800000001,
      refresh = ?r, write_ok = True, build_ok = True\<rparr>"
  have p: "parse_expiry ''2025-01-01T00:00:00Z'' = Inr ?d" by (simp add: eval_defs)
  have l: "load_credentials (JObject ?kvs) = Inr ?creds"
    using p by (simp add: load_credentials_def dict_get_def load_expiry_def)
  have i: "utc_instant ?d = 63871372800000000"
    by (simp add: utc_instant_def ymd2ord_def days_before_year_def days_before_month_def
        time_of_day_def DAY_def)
  have c: "check_valid (valid ?env ?creds) = Inr False"
    using i by (simp add: creds_valid_def)
  have r: "refresh ?env ?creds = Inr ?creds'" by simp
  have w: "\<forall>dt. expiry ?creds' = Some dt \<longrightarrow> valid_datetime dt"
    by (simp add: valid_datetime_def valid_date_def days_in_month_def valid_offset_def)
  have f: "token_file ?env = Parsed (JObject ?kvs)" by simp
  have u: "to_utc ?dt = Inr ?u" by (simp add: to_utc_def replace_tzinfo_utc_def)
  have fe: "format_expiry ?u = ''2025-01-01T01:00:00Z''"
    by (simp add: format_expiry_def str_replace_def isoformat_def format_offset_utc
        zpad.simps digit_char_def)
  have s: "saved_token_data ?creds' = Inr (JObject
       [(''token'', JStr ''ya29.b1''),
        (''refresh_token'', JStr ''1//0g''),
        (''token_uri'', JNull),
        (''client_id'', JNull),
        (''client_secret'', JNull),
        (''scopes'', SCOPES),
        (''universe_domain'', JStr ''googleapis.com''),
        (''account'', JStr []),
        (''expiry'', JStr ''2025-01-01T01:00:00Z'')])"
    using u fe by (simp add: saved_token_data_def)
  have ret: "snd (snd (authenticate_gmail ?env))"
    using l c s by (simp add: authenticate_gmail_def)
  from refreshed_credential_written_before_service [OF f l c r w] ret
  obtain x where a: "authenticate_gmail ?env =
                 ([LoadedToken, RefreshCalled,
                   WroteToken (JObject
                     [(''token'', token ?creds'),
                      (''refresh_token'', refresh_token ?creds'),
                      (''token_uri'', token_uri ?creds'),
                      (''client_id'', client_id ?creds'),
                      (''client_secret'', client_secret ?creds'),
                      (''scopes'', scopes ?creds'),
                      (''universe_domain'', JStr ''googleapis.com''),
                      (''account'', JStr []),
                      (''expiry'', x)]),
                   BuiltService ?creds'], Some ?creds', True)"
    and b: "\<forall>dt. expiry ?creds' = Some dt \<longrightarrow>
                   (\<exists>u. to_utc dt = Inr u \<and> x = JStr (format_expiry u))"
    by blast
  from b u have "x = JStr (format_expiry ?u)" by simp
  with fe have "x = JStr ''2025-01-01T01:00:00Z''" by simp
  with a show ?thesis by simp
qed

end
